theory Spec2Isabelle
  imports Main "HOL-Library.Signed_Division"
begin

section \<open>The email queue service (service/email\_service.go)\<close>

text \<open>
  The service is a Go struct holding two buffered channels, a slice (the dead-letter
  log), a shutdown channel and four Prometheus metrics. Its methods are embedded as
  functions on an explicit state; goroutines (workers, the retry worker, the detached
  per-retry sleepers, the queue-length monitor) become events of a step function, each
  event one atomic action of one goroutine.
\<close>

subsection \<open>models.EmailJob\<close>

text \<open>
  \<^verbatim>\<open>type EmailJob struct { To, Subject, Body string; Retries int }\<close>.
  Go strings are byte sequences (\<open>len\<close> counts bytes, indexing reads a byte), as
  HOL's \<open>string\<close> is. \<open>Retries\<close> is a Go \<open>int\<close>, taken as 64 bits:
  the field holds an \<open>int\<close> here and the arithmetic on it is wrapped by \<open>wrap64\<close>.
\<close>

record EmailJob =
  To :: string
  Subject :: string
  Body :: string
  Retries :: int

definition zeroJob :: EmailJob where
  "zeroJob = \<lparr>To = [], Subject = [], Body = [], Retries = 0\<rparr>"

definition wrap64 :: "int \<Rightarrow> int" where
  "wrap64 x = (x + 2 ^ 63) mod 2 ^ 64 - 2 ^ 63"

subsection \<open>Panics, errors and log lines\<close>

datatype panic =
    SendOnClosedChannel
  | CloseOfClosedChannel
  | MakechanSizeOutOfRange
  | DuplicateCollector string
  | IndexOutOfRange
  | Fault string

text \<open>\<^verbatim>\<open>fmt.Errorf("queue is full")\<close> is the only error value of the package.\<close>

datatype go_error = QueueIsFull

text \<open>One constructor per \<^verbatim>\<open>log.Printf\<close>/\<^verbatim>\<open>log.Println\<close> call, with its arguments.\<close>

datatype log_entry =
    LogStarted int int
  | LogWorkerStarted int
  | LogWorkerShuttingDown int
  | LogRetryWorkerStarted
  | LogRetryWorkerShuttingDown
  | LogProcessing int string string
  | LogRecovered int panic
  | LogSent int string
  | LogRetrying int string
  | LogPermanentlyFailed string
  | LogMovedToDeadLetter string
  | LogShuttingDown
  | LogShutdownComplete

subsection \<open>Channels of jobs\<close>

text \<open>
  A channel is its buffer (oldest element first), its capacity and its closed flag,
  the fields \<open>buf\<close>/\<open>qcount\<close>, \<open>dataqsiz\<close> and \<open>closed\<close> of the runtime's
  \<open>hchan\<close>. Whether a goroutine is blocked receiving on the channel at the moment
  of a send is the scheduler's fact; the operations take it as the argument
  \<open>rcv\<close>: the id of such a receiver, if there is one.
\<close>

record chan =
  buf :: "EmailJob list"
  dataqsiz :: nat
  closed :: bool

text \<open>
  \<^verbatim>\<open>make(chan EmailJob, size)\<close> panics on a negative size and on one the runtime
  cannot allocate; \<open>lim\<close> is the largest capacity the platform allocates for this
  element type.
\<close>

definition makechan :: "int \<Rightarrow> int \<Rightarrow> panic + chan" where
  "makechan lim n =
     (if n < 0 \<or> lim < n then Inl MakechanSizeOutOfRange
      else Inr \<lparr>buf = [], dataqsiz = nat n, closed = False\<rparr>)"

text \<open>
  The runtime's own \<open>full(c)\<close>: a send on the channel would block. An unbuffered
  channel is full unless a receiver waits; a buffered one when the buffer is filled.
\<close>

definition full :: "chan \<Rightarrow> int option \<Rightarrow> bool" where
  "full c rcv =
     (if dataqsiz c = 0 then rcv = None else length (buf c) = dataqsiz c)"

datatype send_result = Buffered chan | Direct int | Default | SendPanic

text \<open>
  \<^verbatim>\<open>select { case c <- x: ... default: ... }\<close> is the runtime's non-blocking
  \<open>chansend\<close>: the default branch when the channel is open and full; a panic when it
  is closed; otherwise the value goes straight to a waiting receiver, or to the
  buffer's tail.
\<close>

definition chansend_nb :: "chan \<Rightarrow> EmailJob \<Rightarrow> int option \<Rightarrow> send_result" where
  "chansend_nb c x rcv =
     (if \<not> closed c \<and> full c rcv then Default
      else if closed c then SendPanic
      else (case rcv of
              Some r \<Rightarrow> Direct r
            | None \<Rightarrow>
                if length (buf c) < dataqsiz c then Buffered (c\<lparr>buf := buf c @ [x]\<rparr>)
                else Default))"

text \<open>
  A receive case of a \<open>select\<close> is ready when the buffer holds a value, or when the
  channel is closed (then it yields the zero value); otherwise it is not ready.
\<close>

definition chanrecv :: "chan \<Rightarrow> (EmailJob \<times> chan) option" where
  "chanrecv c =
     (case buf c of
        x # xs \<Rightarrow> Some (x, c\<lparr>buf := xs\<rparr>)
      | [] \<Rightarrow> if closed c then Some (zeroJob, c) else None)"

subsection \<open>Slices over a store of arrays\<close>

text \<open>
  A slice is a pointer to a backing array, a length and a capacity. The store is the
  list of all arrays allocated so far, an address being an index into it; allocation
  appends. Every slice of the service starts at offset 0 of its array.
\<close>

record slice =
  sptr :: nat
  slen :: nat
  scap :: nat

type_synonym store = "EmailJob list list"

definition array_at :: "store \<Rightarrow> nat \<Rightarrow> EmailJob list" where
  "array_at h a = (if a < length h then h ! a else [])"

definition elems :: "store \<Rightarrow> slice \<Rightarrow> EmailJob list" where
  "elems h sl = take (slen sl) (array_at h (sptr sl))"

text \<open>\<^verbatim>\<open>make([]EmailJob, n)\<close>: a fresh array of \<open>n\<close> zero values.\<close>

definition make_slice :: "store \<Rightarrow> nat \<Rightarrow> store \<times> slice" where
  "make_slice h n = (h @ [replicate n zeroJob], \<lparr>sptr = length h, slen = n, scap = n\<rparr>)"

text \<open>\<^verbatim>\<open>copy(dst, src)\<close>: the first \<open>min(len(dst), len(src))\<close> elements.\<close>

definition copy_slice :: "store \<Rightarrow> slice \<Rightarrow> slice \<Rightarrow> store" where
  "copy_slice h dst src =
     (let n = min (slen dst) (slen src)
      in h[sptr dst := take n (array_at h (sptr src)) @ drop n (array_at h (sptr dst))])"

text \<open>
  \<^verbatim>\<open>append(s, x)\<close> writes in place when the capacity allows and otherwise moves
  the elements to a fresh, larger array. How much larger is the runtime's choice
  \<open>g\<close> (from the old capacity); the language only promises room for the new element.
\<close>

definition append_slice :: "(nat \<Rightarrow> nat) \<Rightarrow> store \<Rightarrow> slice \<Rightarrow> EmailJob \<Rightarrow> store \<times> slice" where
  "append_slice g h sl x =
     (if slen sl < scap sl
      then (h[sptr sl := (array_at h (sptr sl))[slen sl := x]], sl\<lparr>slen := slen sl + 1\<rparr>)
      else (let newcap = max (slen sl + 1) (g (scap sl))
            in (h @ [take (slen sl) (array_at h (sptr sl)) @ [x]
                       @ replicate (newcap - slen sl - 1) zeroJob],
                \<lparr>sptr = length h, slen = slen sl + 1, scap = newcap\<rparr>)))"

text \<open>\<^verbatim>\<open>s[i] = v\<close> by a holder of the slice; out of range it panics.\<close>

definition slice_store :: "store \<Rightarrow> slice \<Rightarrow> nat \<Rightarrow> EmailJob \<Rightarrow> panic + store" where
  "slice_store h sl i v =
     (if i < slen sl then Inr (h[sptr sl := (array_at h (sptr sl))[i := v]])
      else Inl IndexOutOfRange)"

definition slice_ok :: "store \<Rightarrow> slice \<Rightarrow> bool" where
  "slice_ok h sl =
     (sptr sl < length h \<and> slen sl \<le> scap sl \<and> length (array_at h (sptr sl)) = scap sl)"

subsection \<open>The service and its surroundings\<close>

text \<open>
  The fields of \<^verbatim>\<open>EmailService\<close>. The shutdown channel carries no value and is only
  ever closed: it is its closed flag. The gauge holds the last sampled length and the
  counters count by one. The wait group and the lock are scheduling devices: the wait
  group's count is the number of live goroutines below, and the lock is what makes
  \<open>moveToDeadLetter\<close> and \<open>GetDeadLetterJobs\<close> atomic with respect to each other.
\<close>

record EmailService =
  jobQueue :: chan
  retryQueue :: chan
  deadLetterLog :: slice
  workers :: int
  queueSize :: int
  shutdown :: bool
  queueLength :: int
  jobsProcessed :: nat
  jobsFailed :: nat
  deadLetterJobs :: nat

text \<open>
  What the service runs in: the store of arrays and the runtime's growth policy, the
  names registered in Prometheus' default registry, the log output, and the goroutines:
  \<open>live\<close> are the ids of the started workers that have not returned (0 is the retry
  worker), \<open>monitors\<close> counts the queue-length samplers, \<open>inflight\<close> are the jobs
  received by a worker and not yet through \<open>processJob\<close>, \<open>sleeping\<close> are the
  detached goroutines of \<open>handleJobFailure\<close>, each with its sleep in nanoseconds,
  \<open>returned\<close> are the slices that callers of \<open>GetDeadLetterJobs\<close> hold.
\<close>

record system = EmailService +
  heap :: store
  growslice :: "nat \<Rightarrow> nat"
  registered :: "string list"
  logs :: "log_entry list"
  live :: "int list"
  monitors :: nat
  inflight :: "(int \<times> EmailJob) list"
  sleeping :: "(int \<times> EmailJob) list"
  returned :: "slice list"

definition metric_names :: "string list" where
  "metric_names = [''email_queue_length'', ''email_jobs_processed_total'',
                   ''email_jobs_failed_total'', ''email_dead_letter_jobs_total'']"

text \<open>\<^verbatim>\<open>prometheus.MustRegister\<close> panics on a name that is registered already.\<close>

fun MustRegister :: "string list \<Rightarrow> string list \<Rightarrow> panic + string list" where
  "MustRegister reg [] = Inr reg"
| "MustRegister reg (n # ns) =
     (if n \<in> set reg then Inl (DuplicateCollector n) else MustRegister (reg @ [n]) ns)"

text \<open>
  \<^verbatim>\<open>NewEmailService(workers, queueSize)\<close>. Go's \<open>/\<close> on integers truncates
  (\<open>sdiv\<close>).
\<close>

definition NewEmailService ::
  "string list \<Rightarrow> int \<Rightarrow> (nat \<Rightarrow> nat) \<Rightarrow> int \<Rightarrow> int \<Rightarrow> panic + system" where
  "NewEmailService reg lim g workers' queueSize' =
     (case makechan lim queueSize' of
        Inl p \<Rightarrow> Inl p
      | Inr jq \<Rightarrow>
     (case makechan lim (queueSize' sdiv 2) of
        Inl p \<Rightarrow> Inl p
      | Inr rq \<Rightarrow>
     (case make_slice [] 0 of (h, dl) \<Rightarrow>
     (case MustRegister reg metric_names of
        Inl p \<Rightarrow> Inl p
      | Inr reg' \<Rightarrow>
          Inr \<lparr>jobQueue = jq, retryQueue = rq, deadLetterLog = dl,
               workers = workers', queueSize = queueSize', shutdown = False,
               queueLength = 0, jobsProcessed = 0, jobsFailed = 0, deadLetterJobs = 0,
               heap = h, growslice = g, registered = reg', logs = [],
               live = [], monitors = 0, inflight = [], sleeping = [],
               returned = []\<rparr>))))"

text \<open>
  \<^verbatim>\<open>Start\<close>: workers \<open>1..workers\<close>, the retry worker and the monitor. The
  start-up lines of the new goroutines are written here, in spawning order.
\<close>

definition Start :: "system \<Rightarrow> system" where
  "Start s =
     s\<lparr>live := live s @ [1..workers s] @ [0],
       monitors := Suc (monitors s),
       logs := logs s @ map LogWorkerStarted [1..workers s] @ [LogRetryWorkerStarted]
                 @ [LogStarted (workers s) (queueSize s)]\<rparr>"

text \<open>\<^verbatim>\<open>EnqueueJob\<close>: \<open>Inl\<close> a panic, \<open>Inr\<close> the returned error (or nil) and the state.\<close>

definition EnqueueJob ::
  "system \<Rightarrow> EmailJob \<Rightarrow> int option \<Rightarrow> panic + (go_error option \<times> system)" where
  "EnqueueJob s job rcv =
     (case chansend_nb (jobQueue s) job rcv of
        Buffered c \<Rightarrow> Inr (None, s\<lparr>jobQueue := c\<rparr>)
      | Direct r \<Rightarrow> Inr (None, s\<lparr>inflight := inflight s @ [(r, job)]\<rparr>)
      | Default \<Rightarrow> Inr (Some QueueIsFull, s)
      | SendPanic \<Rightarrow> Inl SendOnClosedChannel)"

text \<open>\<^verbatim>\<open>moveToDeadLetter\<close>, under the write lock.\<close>

definition moveToDeadLetter :: "system \<Rightarrow> EmailJob \<Rightarrow> system" where
  "moveToDeadLetter s job =
     (case append_slice (growslice s) (heap s) (deadLetterLog s) job of
        (h, sl) \<Rightarrow>
          s\<lparr>deadLetterLog := sl, heap := h,
            jobsFailed := Suc (jobsFailed s),
            deadLetterJobs := Suc (deadLetterJobs s),
            logs := logs s @ [LogMovedToDeadLetter (To job)]\<rparr>)"

text \<open>
  \<^verbatim>\<open>handleJobFailure\<close>: the job is the function's own copy; the goroutine it
  starts sleeps \<^verbatim>\<open>time.Duration(job.Retries) * time.Second\<close> (an int64 product, in
  nanoseconds) and then runs \<open>retry_send\<close> below.
\<close>

definition handleJobFailure :: "system \<Rightarrow> EmailJob \<Rightarrow> system" where
  "handleJobFailure s job0 =
     (let job = job0\<lparr>Retries := wrap64 (Retries job0 + 1)\<rparr>
      in if Retries job \<le> 3
         then s\<lparr>logs := logs s @ [LogRetrying (Retries job) (To job)],
                sleeping := sleeping s @ [(wrap64 (Retries job * 1000000000), job)]\<rparr>
         else moveToDeadLetter (s\<lparr>logs := logs s @ [LogPermanentlyFailed (To job)]\<rparr>) job)"

text \<open>The goroutine's body after its sleep: the non-blocking send to the retry queue.\<close>

definition retry_send :: "system \<Rightarrow> EmailJob \<Rightarrow> int option \<Rightarrow> panic + system" where
  "retry_send s job rcv =
     (case chansend_nb (retryQueue s) job rcv of
        Buffered c \<Rightarrow> Inr (s\<lparr>retryQueue := c\<rparr>)
      | Direct r \<Rightarrow> Inr (s\<lparr>inflight := inflight s @ [(r, job)]\<rparr>)
      | Default \<Rightarrow> Inr (moveToDeadLetter s job)
      | SendPanic \<Rightarrow> Inl SendOnClosedChannel)"

text \<open>
  \<^verbatim>\<open>processJob\<close>. No statement of its body panics by itself (the index is guarded
  by the length test before it); \<open>fault\<close> is the environment's answer at the
  simulated delivery of line 151, the place a real delivery would stand: \<open>Some r\<close>
  when it panics with value \<open>r\<close>. The body returns the state it reached and the
  panic in flight, if any; the deferred function then runs \<open>recover()\<close>.
\<close>

definition delivery_fails :: "EmailJob \<Rightarrow> bool" where
  "delivery_fails job =
     (Retries job = 0 \<and> 10 < length (Subject job)
        \<and> Subject job ! (length (Subject job) - 1) = CHR ''!'')"

definition processJob_body ::
  "system \<Rightarrow> EmailJob \<Rightarrow> int \<Rightarrow> panic option \<Rightarrow> system \<times> panic option" where
  "processJob_body s job workerID fault =
     (let s1 = s\<lparr>logs := logs s @ [LogProcessing workerID (To job) (Subject job)]\<rparr>
      in case fault of
           Some r \<Rightarrow> (s1, Some r)
         | None \<Rightarrow>
             if delivery_fails job then (handleJobFailure s1 job, None)
             else (s1\<lparr>logs := logs s1 @ [LogSent workerID (To job)],
                      jobsProcessed := Suc (jobsProcessed s1)\<rparr>, None))"

definition deferred_recover :: "system \<Rightarrow> int \<Rightarrow> panic option \<Rightarrow> system" where
  "deferred_recover s workerID r =
     (case r of
        Some p \<Rightarrow> s\<lparr>logs := logs s @ [LogRecovered workerID p]\<rparr>
      | None \<Rightarrow> s)"

definition processJob :: "system \<Rightarrow> EmailJob \<Rightarrow> int \<Rightarrow> panic option \<Rightarrow> system" where
  "processJob s job workerID fault =
     (case processJob_body s job workerID fault of
        (s', r) \<Rightarrow> deferred_recover s' workerID r)"

text \<open>\<^verbatim>\<open>GetDeadLetterJobs\<close>, under the read lock: the returned slice and the state.\<close>

definition GetDeadLetterJobs :: "system \<Rightarrow> slice \<times> system" where
  "GetDeadLetterJobs s =
     (case make_slice (heap s) (slen (deadLetterLog s)) of
        (h, jobs) \<Rightarrow> (jobs, s\<lparr>heap := copy_slice h jobs (deadLetterLog s)\<rparr>))"

text \<open>
  \<^verbatim>\<open>Shutdown\<close> up to its \<^verbatim>\<open>es.wg.Wait()\<close>: the state reached and the panic, if
  one of the two \<open>close\<close> calls meets a closed channel. The wait ends when no
  worker is live; \<open>Shutdown_wait\<close> is the rest of the function, \<open>None\<close> while blocked.
\<close>

definition Shutdown :: "system \<Rightarrow> system \<times> panic option" where
  "Shutdown s =
     (let s1 = s\<lparr>logs := logs s @ [LogShuttingDown]\<rparr>
      in if closed (jobQueue s1) then (s1, Some CloseOfClosedChannel)
         else (let s2 = s1\<lparr>jobQueue := (jobQueue s1)\<lparr>closed := True\<rparr>\<rparr>
               in if shutdown s2 then (s2, Some CloseOfClosedChannel)
                  else (s2\<lparr>shutdown := True\<rparr>, None)))"

definition Shutdown_wait :: "system \<Rightarrow> system option" where
  "Shutdown_wait s =
     (if live s = [] then Some (s\<lparr>logs := logs s @ [LogShutdownComplete]\<rparr>) else None)"

subsection \<open>Goroutines as events\<close>

text \<open>
  One event is one atomic action of one goroutine. A worker is idle when it is live and
  holds no job; an idle worker stands in its \<open>select\<close>. The receiver named by a send
  must be idle, and only the workers \<open>1..\<close> receive on the primary queue (the retry
  worker, id 0, receives on the retry queue only). An event that is not enabled leaves
  the state as it is. A panic outside \<open>processJob\<close> is not recovered by the service;
  the state is then left as the panicking call left it.

  The events allow more than the scheduler does, never less: a sleeper's timer may fire
  at any moment (the clock is not modelled, each sleeper carries its duration), a worker
  may take a queue case of its \<open>select\<close> after the shutdown signal, as the \<open>select\<close>
  chooses among its ready cases, and the retry worker may still receive in its inner
  \<open>select\<close> after a shutdown signalled meanwhile. Goroutines of a second \<open>Start\<close>
  run under the ids of the first and are not told apart.
\<close>

datatype event =
    EvStart
  | EvEnqueue EmailJob "int option"
  | EvRecvJob int
  | EvRecvRetry int
  | EvProcess int "panic option"
  | EvFire nat "int option"
  | EvTick
  | EvList
  | EvCallerStore nat nat EmailJob
  | EvCallerAppend nat EmailJob
  | EvExit int
  | EvShutdown

definition idle :: "system \<Rightarrow> int \<Rightarrow> bool" where
  "idle s w = (w \<in> set (live s) \<and> map_of (inflight s) w = None)"

definition rcv_ok :: "system \<Rightarrow> int option \<Rightarrow> bool \<Rightarrow> bool" where
  "rcv_ok s rcv primary =
     (case rcv of
        None \<Rightarrow> True
      | Some r \<Rightarrow> idle s r \<and> (if primary then r \<noteq> 0 else True))"

text \<open>
  The \<open>select\<close> of \<^verbatim>\<open>worker(id)\<close> (and the inner one of \<^verbatim>\<open>retryWorker\<close>)
  taking its receive case on one of the two queues.
\<close>

definition recv_from :: "bool \<Rightarrow> system \<Rightarrow> int \<Rightarrow> system" where
  "recv_from primary s w =
     (case chanrecv (if primary then jobQueue s else retryQueue s) of
        None \<Rightarrow> s
      | Some (job, c) \<Rightarrow>
          (if primary then s\<lparr>jobQueue := c, inflight := inflight s @ [(w, job)]\<rparr>
           else s\<lparr>retryQueue := c, inflight := inflight s @ [(w, job)]\<rparr>))"

fun step :: "event \<Rightarrow> system \<Rightarrow> system" where
  "step EvStart s = Start s"
| "step (EvEnqueue job rcv) s =
     (if rcv_ok s rcv True
      then (case EnqueueJob s job rcv of Inl p \<Rightarrow> s | Inr (e, s') \<Rightarrow> s')
      else s)"
| "step (EvRecvJob w) s = (if idle s w \<and> w \<noteq> 0 then recv_from True s w else s)"
| "step (EvRecvRetry w) s = (if idle s w then recv_from False s w else s)"
| "step (EvProcess w fault) s =
     (case map_of (inflight s) w of
        None \<Rightarrow> s
      | Some job \<Rightarrow> processJob (s\<lparr>inflight := remove1 (w, job) (inflight s)\<rparr>) job w fault)"
| "step (EvFire i rcv) s =
     (if i < length (sleeping s) \<and> rcv_ok s rcv False
      then (case retry_send (s\<lparr>sleeping := take i (sleeping s) @ drop (Suc i) (sleeping s)\<rparr>)
                   (snd (sleeping s ! i)) rcv of
              Inl p \<Rightarrow> s
            | Inr s' \<Rightarrow> s')
      else s)"
| "step EvTick s =
     (if 0 < monitors s \<and> \<not> shutdown s
      then s\<lparr>queueLength := int (length (buf (jobQueue s)))\<rparr>
      else s)"
| "step EvList s =
     (case GetDeadLetterJobs s of (jobs, s') \<Rightarrow> s'\<lparr>returned := returned s' @ [jobs]\<rparr>)"
| "step (EvCallerStore k i v) s =
     (if k < length (returned s)
      then (case slice_store (heap s) (returned s ! k) i v of
              Inl p \<Rightarrow> s
            | Inr h \<Rightarrow> s\<lparr>heap := h\<rparr>)
      else s)"
| "step (EvCallerAppend k v) s =
     (if k < length (returned s)
      then (case append_slice (growslice s) (heap s) (returned s ! k) v of
              (h, sl) \<Rightarrow> s\<lparr>heap := h, returned := returned s @ [sl]\<rparr>)
      else s)"
| "step (EvExit w) s =
     (if shutdown s \<and> idle s w
      then s\<lparr>live := remove1 w (live s),
             logs := logs s @ [if w = 0 then LogRetryWorkerShuttingDown
                               else LogWorkerShuttingDown w]\<rparr>
      else s)"
| "step EvShutdown s = fst (Shutdown s)"

definition run :: "event list \<Rightarrow> system \<Rightarrow> system" where
  "run evs s = foldl (\<lambda>s e. step e s) s evs"

inductive reachable :: "system \<Rightarrow> bool" where
  reach_init: "NewEmailService reg lim g w q = Inr s \<Longrightarrow> reachable s"
| reach_step: "reachable s \<Longrightarrow> reachable (step e s)"

text \<open>The dead-letter log as a caller of \<open>GetDeadLetterJobs\<close> would read it.\<close>

definition dead_letters :: "system \<Rightarrow> EmailJob list" where
  "dead_letters s = elems (heap s) (deadLetterLog s)"

text \<open>
  The shape of the store that every reachable state has: the log is a slice over an
  allocated array of its capacity, and so is every slice handed to a caller, over an
  array that is not the log's.
\<close>

definition wf_system :: "system \<Rightarrow> bool" where
  "wf_system s =
     (slice_ok (heap s) (deadLetterLog s) \<and>
      list_all (\<lambda>sl. slice_ok (heap s) sl \<and> sptr sl \<noteq> sptr (deadLetterLog s)) (returned s))"

subsection \<open>Observations and scenarios\<close>

text \<open>
  A service constructed in a fresh process (nothing registered yet), on a runtime that
  doubles a slice's capacity, with room for channels of up to a million jobs; and the
  two jobs of the documented scenarios.
\<close>

definition fresh_service :: "int \<Rightarrow> int \<Rightarrow> panic + system" where
  "fresh_service w q = NewEmailService [] 1000000 (\<lambda>c. 2 * c) w q"

definition failing_job :: EmailJob where
  "failing_job = \<lparr>To = ''a@b.com'', Subject = ''This will fail!'', Body = ''x'', Retries = 0\<rparr>"

definition plain_job :: EmailJob where
  "plain_job = \<lparr>To = ''a@b.com'', Subject = ''Hi'', Body = ''x'', Retries = 0\<rparr>"

text \<open>
  What a step does to the two failure counters and the dead-letter log: nothing, or one
  record more at the end and one more on each counter.
\<close>

definition dl_same :: "system \<Rightarrow> system \<Rightarrow> bool" where
  "dl_same s s' =
     (jobsFailed s' = jobsFailed s \<and> deadLetterJobs s' = deadLetterJobs s
        \<and> dead_letters s' = dead_letters s)"

definition dl_added :: "EmailJob \<Rightarrow> system \<Rightarrow> system \<Rightarrow> bool" where
  "dl_added job s s' =
     (jobsFailed s' = Suc (jobsFailed s) \<and> deadLetterJobs s' = Suc (deadLetterJobs s)
        \<and> dead_letters s' = dead_letters s @ [job])"

text \<open>
  The events of a caller of \<open>GetDeadLetterJobs\<close>, and the events that can reach
  \<open>moveToDeadLetter\<close>.
\<close>

definition caller_event :: "event \<Rightarrow> bool" where
  "caller_event e =
     (case e of EvList \<Rightarrow> True | EvCallerStore k i v \<Rightarrow> True | EvCallerAppend k v \<Rightarrow> True
      | _ \<Rightarrow> False)"

definition may_record :: "event \<Rightarrow> bool" where
  "may_record e = (case e of EvProcess w f \<Rightarrow> True | EvFire i r \<Rightarrow> True | _ \<Rightarrow> False)"

text \<open>
  A failing job on a service whose retry queue has no buffer, with no receiver waiting
  when its retry timer fires.
\<close>

definition saturated_scenario :: "event list" where
  "saturated_scenario =
     [EvStart, EvEnqueue failing_job None, EvRecvJob 1, EvProcess 1 None, EvFire 0 None]"

text \<open>
  What every reachable state satisfies beyond the shape of its store: the channels hold
  no more than their capacity and the retry queue is open; no worker holds two jobs and
  every worker holding one is live; and every job that sleeps before its retry, waits in
  the retry queue or lies in the dead-letter log has failed exactly once.
\<close>

definition chans_ok :: "system \<Rightarrow> bool" where
  "chans_ok s =
     (\<not> closed (retryQueue s)
      \<and> length (buf (retryQueue s)) \<le> dataqsiz (retryQueue s)
      \<and> length (buf (jobQueue s)) \<le> dataqsiz (jobQueue s))"

definition workers_ok :: "system \<Rightarrow> bool" where
  "workers_ok s =
     (distinct (map fst (inflight s)) \<and> list_all (\<lambda>(w, j). w \<in> set (live s)) (inflight s))"

definition failed_once :: "system \<Rightarrow> bool" where
  "failed_once s =
     (list_all (\<lambda>(d, j). Retries j = 1 \<and> d = 1000000000) (sleeping s)
      \<and> list_all (\<lambda>j. Retries j = 1) (buf (retryQueue s))
      \<and> list_all (\<lambda>j. Retries j = 1) (dead_letters s))"

text \<open>A failing job received by worker 1 of a service with room in both queues.\<close>

definition received_scenario :: "event list" where
  "received_scenario = [EvStart, EvEnqueue failing_job None, EvRecvJob 1]"

text \<open>The same failing job after its first, third and fourth failure.\<close>

definition failed_times :: "int \<Rightarrow> EmailJob" where
  "failed_times n = failing_job\<lparr>Retries := n\<rparr>"

text \<open>
  The documented retry scenario: the failing job is enqueued, received by worker 1 and
  processed; its retry timer fires with room in the retry queue; worker 2 receives the
  retried job and processes it.
\<close>

definition retry_scenario :: "event list" where
  "retry_scenario =
     [EvStart, EvEnqueue failing_job None, EvRecvJob 1, EvProcess 1 None,
      EvFire 0 None, EvRecvRetry 2, EvProcess 2 None]"

text \<open>The failing job asleep before its retry, on a service with no retry buffer.\<close>

definition asleep_scenario :: "event list" where
  "asleep_scenario = [EvStart, EvEnqueue failing_job None, EvRecvJob 1, EvProcess 1 None]"

section \<open>Properties\<close>

subsection \<open>The store\<close>

lemma array_at_append_old: "a < length h \<Longrightarrow> array_at (h @ [xs]) a = array_at h a"
  by (simp add: array_at_def nth_append)

lemma array_at_append_new: "array_at (h @ [xs]) (length h) = xs"
  by (simp add: array_at_def)

lemma array_at_update_same: "a < length h \<Longrightarrow> array_at (h[a := xs]) a = xs"
  by (simp add: array_at_def)

lemma array_at_update_other: "a \<noteq> b \<Longrightarrow> array_at (h[b := xs]) a = array_at h a"
  by (simp add: array_at_def)

lemma append_slice_elems:
  assumes "slice_ok h sl" and "append_slice g h sl x = (h', sl')"
  shows "elems h' sl' = elems h sl @ [x]"
  using assms
  by (auto simp: append_slice_def slice_ok_def elems_def Let_def array_at_update_same
      array_at_append_new take_Suc_conv_app_nth split: if_splits)

lemma append_slice_ok:
  assumes "slice_ok h sl" and "append_slice g h sl x = (h', sl')"
  shows "slice_ok h' sl'"
  using assms
  by (auto simp: append_slice_def slice_ok_def Let_def array_at_update_same
      array_at_append_new split: if_splits)

lemma append_slice_length:
  assumes "append_slice g h sl x = (h', sl')"
  shows "length h \<le> length h'"
  using assms by (auto simp: append_slice_def Let_def split: if_splits)

lemma append_slice_other:
  assumes "slice_ok h sl" and "slice_ok h t" and "sptr t \<noteq> sptr sl"
    and "append_slice g h sl x = (h', sl')"
  shows "array_at h' (sptr t) = array_at h (sptr t) \<and> slice_ok h' t \<and> sptr t \<noteq> sptr sl'"
  using assms
  by (auto simp: append_slice_def slice_ok_def Let_def array_at_update_other
      array_at_append_old split: if_splits)

subsection \<open>The dead-letter log keeps its shape\<close>

lemma moveToDeadLetter_dead_letters:
  assumes "wf_system s"
  shows "dead_letters (moveToDeadLetter s job) = dead_letters s @ [job]"
proof -
  obtain h' sl' where a: "append_slice (growslice s) (heap s) (deadLetterLog s) job = (h', sl')"
    by (cases "append_slice (growslice s) (heap s) (deadLetterLog s) job")
  from assms have "slice_ok (heap s) (deadLetterLog s)" by (simp add: wf_system_def)
  from append_slice_elems [OF this a] show ?thesis
    by (simp add: moveToDeadLetter_def dead_letters_def a)
qed

lemma moveToDeadLetter_wf:
  assumes "wf_system s"
  shows "wf_system (moveToDeadLetter s job)"
proof -
  obtain h' sl' where a: "append_slice (growslice s) (heap s) (deadLetterLog s) job = (h', sl')"
    by (cases "append_slice (growslice s) (heap s) (deadLetterLog s) job")
  from assms have ok: "slice_ok (heap s) (deadLetterLog s)" by (simp add: wf_system_def)
  have "slice_ok h' t \<and> sptr t \<noteq> sptr sl'"
    if "slice_ok (heap s) t" and "sptr t \<noteq> sptr (deadLetterLog s)" for t
    using append_slice_other [OF ok that a] by simp
  with assms append_slice_ok [OF ok a] show ?thesis
    by (auto simp: moveToDeadLetter_def wf_system_def a list_all_iff)
qed

lemma moveToDeadLetter_fields:
  "jobsFailed (moveToDeadLetter s job) = Suc (jobsFailed s)"
  "deadLetterJobs (moveToDeadLetter s job) = Suc (deadLetterJobs s)"
  "jobsProcessed (moveToDeadLetter s job) = jobsProcessed s"
  "jobQueue (moveToDeadLetter s job) = jobQueue s"
  "retryQueue (moveToDeadLetter s job) = retryQueue s"
  "sleeping (moveToDeadLetter s job) = sleeping s"
  "inflight (moveToDeadLetter s job) = inflight s"
  "live (moveToDeadLetter s job) = live s"
  "returned (moveToDeadLetter s job) = returned s"
  "shutdown (moveToDeadLetter s job) = shutdown s"
  "growslice (moveToDeadLetter s job) = growslice s"
  "slen (deadLetterLog (moveToDeadLetter s job)) = Suc (slen (deadLetterLog s))"
  "logs (moveToDeadLetter s job) = logs s @ [LogMovedToDeadLetter (To job)]"
  by (simp_all add: moveToDeadLetter_def append_slice_def Let_def split: prod.splits)

lemma wf_system_updates [simp]:
  "wf_system (s\<lparr>logs := a1\<rparr>) = wf_system s"
  "wf_system (s\<lparr>jobQueue := a2\<rparr>) = wf_system s"
  "wf_system (s\<lparr>retryQueue := a3\<rparr>) = wf_system s"
  "wf_system (s\<lparr>inflight := a4\<rparr>) = wf_system s"
  "wf_system (s\<lparr>sleeping := a5\<rparr>) = wf_system s"
  "wf_system (s\<lparr>live := a6\<rparr>) = wf_system s"
  "wf_system (s\<lparr>monitors := a7\<rparr>) = wf_system s"
  "wf_system (s\<lparr>shutdown := a8\<rparr>) = wf_system s"
  "wf_system (s\<lparr>queueLength := a9\<rparr>) = wf_system s"
  "wf_system (s\<lparr>jobsProcessed := a10\<rparr>) = wf_system s"
  by (simp_all add: wf_system_def)

lemma handleJobFailure_wf: "wf_system s \<Longrightarrow> wf_system (handleJobFailure s job)"
  by (simp add: handleJobFailure_def Let_def moveToDeadLetter_wf)

lemma processJob_wf: "wf_system s \<Longrightarrow> wf_system (processJob s job w fault)"
  by (simp add: processJob_def processJob_body_def deferred_recover_def Let_def
      handleJobFailure_wf split: option.splits)

lemma retry_send_wf: "wf_system s \<Longrightarrow> retry_send s job rcv = Inr s' \<Longrightarrow> wf_system s'"
  by (auto simp: retry_send_def moveToDeadLetter_wf split: send_result.splits)

lemma EnqueueJob_wf: "wf_system s \<Longrightarrow> EnqueueJob s job rcv = Inr (e, s') \<Longrightarrow> wf_system s'"
  by (auto simp: EnqueueJob_def split: send_result.splits)

lemma recv_from_wf: "wf_system s \<Longrightarrow> wf_system (recv_from p s w)"
  by (auto simp: recv_from_def split: option.splits)

lemma Shutdown_wf: "wf_system s \<Longrightarrow> wf_system (fst (Shutdown s))"
  by (auto simp: Shutdown_def Let_def)

lemma GetDeadLetterJobs_eq:
  assumes "wf_system s"
  shows "GetDeadLetterJobs s =
           (\<lparr>sptr = length (heap s), slen = slen (deadLetterLog s), scap = slen (deadLetterLog s)\<rparr>,
            s\<lparr>heap := heap s @ [dead_letters s]\<rparr>)"
  using assms
  by (simp add: GetDeadLetterJobs_def make_slice_def copy_slice_def wf_system_def slice_ok_def
      dead_letters_def elems_def array_at_def nth_append)

lemma slice_ok_grow: "slice_ok h t \<Longrightarrow> slice_ok (h @ [xs]) t"
  by (auto simp: slice_ok_def array_at_def nth_append split: if_splits)

lemma slice_ok_update:
  "slice_ok h t \<Longrightarrow> length xs = length (array_at h a) \<Longrightarrow> slice_ok (h[a := xs]) t"
  by (auto simp: slice_ok_def array_at_def nth_list_update split: if_splits)

lemma GetDeadLetterJobs_wf:
  assumes "wf_system s" and "GetDeadLetterJobs s = (jobs, s')"
  shows "wf_system (s'\<lparr>returned := returned s' @ [jobs]\<rparr>)"
proof -
  from assms have ok: "slice_ok (heap s) (deadLetterLog s)"
    and rs: "\<forall>sl \<in> set (returned s). slice_ok (heap s) sl \<and> sptr sl \<noteq> sptr (deadLetterLog s)"
    by (simp_all add: wf_system_def list_all_iff)
  have new: "slice_ok (heap s @ [dead_letters s])
               \<lparr>sptr = length (heap s), slen = slen (deadLetterLog s), scap = slen (deadLetterLog s)\<rparr>"
    using ok by (auto simp: slice_ok_def array_at_def dead_letters_def elems_def split: if_splits)
  from assms GetDeadLetterJobs_eq [OF assms(1)]
  have j: "jobs = \<lparr>sptr = length (heap s), slen = slen (deadLetterLog s), scap = slen (deadLetterLog s)\<rparr>"
    and s': "s' = s\<lparr>heap := heap s @ [dead_letters s]\<rparr>" by simp_all
  from ok have "sptr (deadLetterLog s) < length (heap s)" by (simp add: slice_ok_def)
  then show ?thesis
    using ok rs new by (auto simp: j s' wf_system_def list_all_iff slice_ok_grow)
qed

lemma slice_store_wf:
  assumes "wf_system s" and "k < length (returned s)"
    and "slice_store (heap s) (returned s ! k) i v = Inr h"
  shows "wf_system (s\<lparr>heap := h\<rparr>)"
proof -
  from assms(3) have h: "h = (heap s)[sptr (returned s ! k) :=
        (array_at (heap s) (sptr (returned s ! k)))[i := v]]"
    by (simp add: slice_store_def split: if_splits)
  have "slice_ok h t" if "slice_ok (heap s) t" for t
    unfolding h using that by (rule slice_ok_update) simp
  with assms(1) show ?thesis by (auto simp: wf_system_def list_all_iff)
qed

lemma caller_append_wf:
  assumes "wf_system s" and "k < length (returned s)"
    and "append_slice (growslice s) (heap s) (returned s ! k) v = (h, sl)"
  shows "wf_system (s\<lparr>heap := h, returned := returned s @ [sl]\<rparr>)"
proof -
  let ?r = "returned s ! k"
  from assms(1,2) have r: "slice_ok (heap s) ?r" "sptr ?r \<noteq> sptr (deadLetterLog s)"
    and ok: "slice_ok (heap s) (deadLetterLog s)"
    and rs: "\<forall>t \<in> set (returned s). slice_ok (heap s) t \<and> sptr t \<noteq> sptr (deadLetterLog s)"
    by (simp_all add: wf_system_def list_all_iff)
  have keep: "slice_ok h t" if "slice_ok (heap s) t" for t
    using that assms(3)
    by (auto simp: append_slice_def Let_def slice_ok_grow intro!: slice_ok_update split: if_splits)
  have new: "slice_ok h sl" by (rule append_slice_ok [OF r(1) assms(3)])
  have "sptr sl \<noteq> sptr (deadLetterLog s)"
    using append_slice_other [OF r(1) ok _ assms(3)] r(2) by auto
  with keep new ok rs show ?thesis by (auto simp: wf_system_def list_all_iff)
qed

lemma step_wf: "wf_system s \<Longrightarrow> wf_system (step e s)"
proof (cases e)
  case EvList
  then show ?thesis if "wf_system s"
    using GetDeadLetterJobs_wf [OF that] by (simp split: prod.splits)
next
  case (EvCallerStore k i v)
  then show ?thesis if "wf_system s"
    using slice_store_wf [OF that] that by (simp split: sum.splits)
next
  case (EvCallerAppend k v)
  then show ?thesis if "wf_system s"
    using caller_append_wf [OF that] that by (simp split: prod.splits)
next
  case (EvFire i rcv)
  then show ?thesis if "wf_system s"
    using retry_send_wf [of "s\<lparr>sleeping := take i (sleeping s) @ drop (Suc i) (sleeping s)\<rparr>"] that
    by (simp split: sum.splits)
qed (auto simp: Start_def intro: processJob_wf recv_from_wf Shutdown_wf EnqueueJob_wf retry_send_wf split: sum.splits option.splits)

subsection \<open>Construction, reachable states and the counters\<close>

lemma MustRegister_Inr: "MustRegister reg ns = Inr r \<Longrightarrow> r = reg @ ns"
  by (induction reg ns rule: MustRegister.induct) (auto split: if_splits)

lemma MustRegister_fresh:
  "distinct ns \<Longrightarrow> set ns \<inter> set reg = {} \<Longrightarrow> MustRegister reg ns = Inr (reg @ ns)"
  by (induction reg ns rule: MustRegister.induct) auto

lemma distinct_metric_names: "distinct metric_names"
  by (simp add: metric_names_def)

lemma sdiv_2_nonneg: "0 \<le> q \<Longrightarrow> (q::int) sdiv 2 = q div 2"
  by (simp add: signed_divide_int_def sgn_if)

lemma NewEmailService_Inr:
  assumes "NewEmailService reg lim g w q = Inr s"
  shows "0 \<le> q \<and> q \<le> lim \<and>
         s = \<lparr>jobQueue = \<lparr>buf = [], dataqsiz = nat q, closed = False\<rparr>,
               retryQueue = \<lparr>buf = [], dataqsiz = nat (q div 2), closed = False\<rparr>,
               deadLetterLog = \<lparr>sptr = 0, slen = 0, scap = 0\<rparr>,
               workers = w, queueSize = q, shutdown = False,
               queueLength = 0, jobsProcessed = 0, jobsFailed = 0, deadLetterJobs = 0,
               heap = [[]], growslice = g, registered = reg @ metric_names, logs = [],
               live = [], monitors = 0, inflight = [], sleeping = [],
               returned = []\<rparr>"
  using assms
  by (auto simp: NewEmailService_def makechan_def make_slice_def sdiv_2_nonneg
      dest: MustRegister_Inr split: if_splits sum.splits)

lemma NewEmailService_wf: "NewEmailService reg lim g w q = Inr s \<Longrightarrow> wf_system s"
  by (drule NewEmailService_Inr) (auto simp: wf_system_def slice_ok_def array_at_def)

lemma reachable_wf: "reachable s \<Longrightarrow> wf_system s"
  by (induction rule: reachable.induct) (auto intro: NewEmailService_wf step_wf)

lemmas eval_defs = fresh_service_def NewEmailService_def makechan_def make_slice_def
      signed_divide_int_def metric_names_def run_def Start_def EnqueueJob_def chansend_nb_def full_def
      rcv_ok_def idle_def recv_from_def chanrecv_def processJob_def processJob_body_def
      deferred_recover_def delivery_fails_def handleJobFailure_def wrap64_def retry_send_def
      moveToDeadLetter_def append_slice_def array_at_def dead_letters_def elems_def
      failing_job_def plain_job_def Let_def GetDeadLetterJobs_def copy_slice_def slice_store_def
      Shutdown_def

lemma dead_letters_updates [simp]:
  "dead_letters (s\<lparr>logs := a1\<rparr>) = dead_letters s"
  "dead_letters (s\<lparr>jobQueue := a2\<rparr>) = dead_letters s"
  "dead_letters (s\<lparr>retryQueue := a3\<rparr>) = dead_letters s"
  "dead_letters (s\<lparr>inflight := a4\<rparr>) = dead_letters s"
  "dead_letters (s\<lparr>sleeping := a5\<rparr>) = dead_letters s"
  "dead_letters (s\<lparr>live := a6\<rparr>) = dead_letters s"
  "dead_letters (s\<lparr>monitors := a7\<rparr>) = dead_letters s"
  "dead_letters (s\<lparr>shutdown := a8\<rparr>) = dead_letters s"
  "dead_letters (s\<lparr>queueLength := a9\<rparr>) = dead_letters s"
  "dead_letters (s\<lparr>jobsProcessed := a10\<rparr>) = dead_letters s"
  "dead_letters (s\<lparr>returned := a11\<rparr>) = dead_letters s"
  by (simp_all add: dead_letters_def)

lemma moveToDeadLetter_dl: "wf_system s \<Longrightarrow> dl_added job s (moveToDeadLetter s job)"
  by (simp add: dl_added_def moveToDeadLetter_dead_letters moveToDeadLetter_fields)

lemma dl_added_after_log:
  "dl_added job (s\<lparr>logs := l\<rparr>) s' = dl_added job s s'"
  by (simp add: dl_added_def)

lemma handleJobFailure_dl:
  "wf_system s \<Longrightarrow>
     dl_same s (handleJobFailure s job)
     \<or> dl_added (job\<lparr>Retries := wrap64 (Retries job + 1)\<rparr>) s (handleJobFailure s job)"
  using moveToDeadLetter_dl [of "s\<lparr>logs := logs s @ [LogPermanentlyFailed (To job)]\<rparr>"]
  by (simp add: handleJobFailure_def Let_def dl_same_def dl_added_after_log)

lemma processJob_dl:
  "wf_system s \<Longrightarrow>
     dl_same s (processJob s job w fault)
     \<or> dl_added (job\<lparr>Retries := wrap64 (Retries job + 1)\<rparr>) s (processJob s job w fault)"
  using handleJobFailure_dl [of "s\<lparr>logs := logs s @ [LogProcessing w (To job) (Subject job)]\<rparr>" job]
  by (auto simp: processJob_def processJob_body_def deferred_recover_def Let_def dl_same_def
      dl_added_def split: option.splits)

lemma retry_send_dl:
  "wf_system s \<Longrightarrow> retry_send s job rcv = Inr s' \<Longrightarrow> dl_same s s' \<or> dl_added job s s'"
  using moveToDeadLetter_dl [of s job]
  by (auto simp: retry_send_def dl_same_def split: send_result.splits)

lemma EnqueueJob_dl: "EnqueueJob s job rcv = Inr (e, s') \<Longrightarrow> dl_same s s'"
  by (auto simp: EnqueueJob_def dl_same_def split: send_result.splits)

lemma recv_from_dl: "dl_same s (recv_from p s w)"
  by (auto simp: recv_from_def dl_same_def split: option.splits)

lemma Shutdown_dl: "dl_same s (fst (Shutdown s))"
  by (auto simp: Shutdown_def Let_def dl_same_def)

lemma Start_dl: "dl_same s (Start s)"
  by (simp add: Start_def dl_same_def)

lemma GetDeadLetterJobs_dl:
  assumes "wf_system s"
  shows "dl_same s (snd (GetDeadLetterJobs s))"
proof -
  from assms have "sptr (deadLetterLog s) < length (heap s)"
    by (simp add: wf_system_def slice_ok_def)
  then show ?thesis
    by (simp add: GetDeadLetterJobs_eq [OF assms] dl_same_def dead_letters_def elems_def
        array_at_append_old)
qed

lemma GetDeadLetterJobs_elems:
  assumes "wf_system s" and "GetDeadLetterJobs s = (jobs, s')"
  shows "elems (heap s') jobs = dead_letters s"
proof -
  from assms have "slen (deadLetterLog s) \<le> length (array_at (heap s) (sptr (deadLetterLog s)))"
    by (simp add: wf_system_def slice_ok_def)
  with assms(2) show ?thesis
    by (auto simp: GetDeadLetterJobs_eq [OF assms(1)] elems_def array_at_append_new dead_letters_def)
qed

lemma slice_store_dl:
  assumes "wf_system s" and "k < length (returned s)"
    and "slice_store (heap s) (returned s ! k) i v = Inr h"
  shows "dl_same s (s\<lparr>heap := h\<rparr>)"
proof -
  from assms(1,2) have "sptr (returned s ! k) \<noteq> sptr (deadLetterLog s)"
    by (simp add: wf_system_def list_all_length)
  with assms(3) show ?thesis
    by (auto simp: slice_store_def dl_same_def dead_letters_def elems_def array_at_update_other
        split: if_splits)
qed

lemma caller_append_dl:
  assumes "wf_system s" and "k < length (returned s)"
    and "append_slice (growslice s) (heap s) (returned s ! k) v = (h, sl)"
  shows "dl_same s (s\<lparr>heap := h, returned := returned s @ [sl]\<rparr>)"
proof -
  from assms(1,2) have r: "slice_ok (heap s) (returned s ! k)"
      "sptr (deadLetterLog s) \<noteq> sptr (returned s ! k)"
    and ok: "slice_ok (heap s) (deadLetterLog s)"
    by (auto simp: wf_system_def list_all_length)
  from append_slice_other [OF r(1) ok r(2) assms(3)] show ?thesis
    by (simp add: dl_same_def dead_letters_def elems_def)
qed

lemma step_dl:
  assumes "wf_system s"
  shows "dl_same s (step e s) \<or> (\<exists>job. dl_added job s (step e s))"
proof (cases e)
  case EvStart
  then show ?thesis by (simp add: Start_dl)
next
  case (EvEnqueue job rcv)
  then show ?thesis by (auto simp: dl_same_def dest: EnqueueJob_dl split: sum.splits)
next
  case (EvRecvJob w)
  then show ?thesis using recv_from_dl [of s True w] by (simp add: dl_same_def)
next
  case (EvRecvRetry w)
  then show ?thesis using recv_from_dl [of s False w] by (simp add: dl_same_def)
next
  case (EvProcess w fault)
  show ?thesis
  proof (cases "map_of (inflight s) w")
    case None
    with EvProcess show ?thesis by (simp add: dl_same_def)
  next
    case (Some job)
    with EvProcess assms
      processJob_dl [of "s\<lparr>inflight := remove1 (w, job) (inflight s)\<rparr>" job w fault]
    show ?thesis by (auto simp: dl_same_def dl_added_def)
  qed
next
  case (EvFire i rcv)
  with assms
    retry_send_dl [of "s\<lparr>sleeping := take i (sleeping s) @ drop (Suc i) (sleeping s)\<rparr>"
      "snd (sleeping s ! i)" rcv]
  show ?thesis by (auto simp: dl_same_def dl_added_def split: sum.splits)
next
  case EvTick
  then show ?thesis by (simp add: dl_same_def)
next
  case EvList
  with GetDeadLetterJobs_dl [OF assms] show ?thesis
    by (auto simp: dl_same_def split: prod.splits)
next
  case (EvCallerStore k i v)
  with slice_store_dl [OF assms] show ?thesis
    by (auto simp: dl_same_def split: sum.splits)
next
  case (EvCallerAppend k v)
  with caller_append_dl [OF assms] show ?thesis
    by (auto simp: dl_same_def split: prod.splits)
next
  case (EvExit w)
  then show ?thesis by (simp add: dl_same_def)
next
  case EvShutdown
  then show ?thesis by (simp add: Shutdown_dl)
qed

lemma run_Nil [simp]: "run [] s = s"
  by (simp add: run_def)

lemma run_Cons [simp]: "run (e # evs) s = run evs (step e s)"
  by (simp add: run_def)

lemma run_append: "run (evs @ evs') s = run evs' (run evs s)"
  by (simp add: run_def)

lemma reachable_run: "reachable s \<Longrightarrow> reachable (run evs s)"
  by (induction evs arbitrary: s) (auto intro: reachable.reach_step)

lemma run_wf: "wf_system s \<Longrightarrow> wf_system (run evs s)"
  by (induction evs arbitrary: s) (auto intro: step_wf)

lemma wf_length_dead_letters: "wf_system s \<Longrightarrow> length (dead_letters s) = slen (deadLetterLog s)"
  by (simp add: wf_system_def slice_ok_def dead_letters_def elems_def)

lemma reachable_counters:
  "reachable s \<Longrightarrow> jobsFailed s = deadLetterJobs s \<and> deadLetterJobs s = length (dead_letters s)"
proof (induction rule: reachable.induct)
  case (reach_init reg lim g w q s)
  from NewEmailService_Inr [OF this] show ?case
    by (auto simp: dead_letters_def elems_def)
next
  case (reach_step s e)
  from step_dl [OF reachable_wf [OF reach_step.hyps], of e] reach_step.IH show ?case
    by (auto simp: dl_same_def dl_added_def)
qed

lemma step_dl_other:
  assumes "wf_system s" and "\<not> may_record e"
  shows "dl_same s (step e s)"
proof (cases e)
  case EvStart
  then show ?thesis by (simp add: Start_dl)
next
  case (EvEnqueue job rcv)
  then show ?thesis by (auto simp: dl_same_def dest: EnqueueJob_dl split: sum.splits)
next
  case (EvRecvJob w)
  then show ?thesis using recv_from_dl [of s True w] by (simp add: dl_same_def)
next
  case (EvRecvRetry w)
  then show ?thesis using recv_from_dl [of s False w] by (simp add: dl_same_def)
next
  case (EvProcess w fault)
  with assms(2) show ?thesis by (simp add: may_record_def)
next
  case (EvFire i rcv)
  with assms(2) show ?thesis by (simp add: may_record_def)
next
  case EvTick
  then show ?thesis by (simp add: dl_same_def)
next
  case EvList
  with GetDeadLetterJobs_dl [OF assms(1)] show ?thesis
    by (auto simp: dl_same_def split: prod.splits)
next
  case (EvCallerStore k i v)
  with slice_store_dl [OF assms(1)] show ?thesis
    by (auto simp: dl_same_def split: sum.splits)
next
  case (EvCallerAppend k v)
  with caller_append_dl [OF assms(1)] show ?thesis
    by (auto simp: dl_same_def split: prod.splits)
next
  case (EvExit w)
  then show ?thesis by (simp add: dl_same_def)
next
  case EvShutdown
  then show ?thesis by (simp add: Shutdown_dl)
qed

lemma caller_run_dead_letters:
  "wf_system s \<Longrightarrow> list_all caller_event evs \<Longrightarrow> dead_letters (run evs s) = dead_letters s"
proof (induction evs arbitrary: s)
  case Nil
  then show ?case by simp
next
  case (Cons e evs)
  from Cons.prems have "\<not> may_record e"
    by (auto simp: caller_event_def may_record_def split: event.splits)
  from step_dl_other [OF Cons.prems(1) this] have "dead_letters (step e s) = dead_letters s"
    by (simp add: dl_same_def)
  with Cons.IH [OF step_wf [OF Cons.prems(1)], of e] Cons.prems(2) show ?case by simp
qed

lemma moveToDeadLetter_keeps_copy:
  assumes "wf_system s" and "r \<in> set (returned s)"
  shows "elems (heap (moveToDeadLetter s job)) r = elems (heap s) r"
proof -
  obtain h' sl' where a: "append_slice (growslice s) (heap s) (deadLetterLog s) job = (h', sl')"
    by (cases "append_slice (growslice s) (heap s) (deadLetterLog s) job")
  from assms have ok: "slice_ok (heap s) (deadLetterLog s)" and r: "slice_ok (heap s) r"
      "sptr r \<noteq> sptr (deadLetterLog s)"
    by (auto simp: wf_system_def list_all_iff)
  from append_slice_other [OF ok r a] show ?thesis
    by (simp add: moveToDeadLetter_def a elems_def)
qed

text \<open>
  C10. In every reachable state the permanently-failed counter equals the dead-lettered
  counter, and both equal the length of the dead-letter log (as read through the slice
  and as its \<open>len\<close>). Every step either leaves the three as they are or adds one
  record at the end of the log and one to each counter, and a step that is not a
  \<open>processJob\<close> call or a retry timer firing (the only callers of
  \<open>moveToDeadLetter\<close>) leaves them as they are. Each event is atomic here, as the
  lock makes \<open>moveToDeadLetter\<close> for every holder of the lock.
\<close>
theorem counters_equal_log_length:
  assumes "reachable s"
  shows "jobsFailed s = deadLetterJobs s
       \<and> deadLetterJobs s = length (dead_letters s)
       \<and> length (dead_letters s) = slen (deadLetterLog s)
       \<and> (dl_same s (step e s) \<or> (\<exists>job. dl_added job s (step e s)))
       \<and> (if may_record e then True else dl_same s (step e s))"
  using reachable_counters [OF assms] reachable_wf [OF assms]
  by (simp add: wf_length_dead_letters step_dl step_dl_other)

theorem counters_equal_log_length_witness:
  "case fresh_service 3 1 of
     Inl p \<Rightarrow> False
   | Inr s \<Rightarrow> jobsFailed (run saturated_scenario s) = 1
            \<and> deadLetterJobs (run saturated_scenario s) = 1
            \<and> length (dead_letters (run saturated_scenario s)) = 1
            \<and> dl_same (run saturated_scenario s) (step EvTick (run saturated_scenario s))"
proof -
  obtain s where s: "fresh_service 3 1 = Inr s"
    by (simp add: eval_defs)
  then have "reachable s"
    unfolding fresh_service_def by (rule reachable.reach_init)
  then have r: "reachable (run saturated_scenario s)"
    by (rule reachable_run)
  have "jobsFailed (run saturated_scenario s) = 1"
    using s [symmetric] by (simp add: eval_defs saturated_scenario_def)
  with counters_equal_log_length [OF r, of EvTick] s show ?thesis
    by (simp add: may_record_def)
qed

text \<open>
  C8. Every call of \<open>moveToDeadLetter\<close> on a state of the shape all reachable
  states have appends exactly the job at the end of the dead-letter log, leaves every
  earlier record in place and unchanged, and adds exactly one to the permanently-failed
  counter and one to the dead-lettered counter.
\<close>
theorem moveToDeadLetter_appends_one:
  assumes "wf_system s"
  shows "dead_letters (moveToDeadLetter s job) = dead_letters s @ [job]
       \<and> slen (deadLetterLog (moveToDeadLetter s job)) = slen (deadLetterLog s) + 1
       \<and> jobsFailed (moveToDeadLetter s job) = jobsFailed s + 1
       \<and> deadLetterJobs (moveToDeadLetter s job) = deadLetterJobs s + 1
       \<and> wf_system (moveToDeadLetter s job)"
  using assms
  by (simp add: moveToDeadLetter_dead_letters moveToDeadLetter_fields moveToDeadLetter_wf)

theorem moveToDeadLetter_appends_one_witness:
  "case fresh_service 3 1 of
     Inl p \<Rightarrow> False
   | Inr s \<Rightarrow> dead_letters (run saturated_scenario s) = [failing_job\<lparr>Retries := 1\<rparr>]
            \<and> dead_letters (moveToDeadLetter (run saturated_scenario s) plain_job)
                = [failing_job\<lparr>Retries := 1\<rparr>, plain_job]
            \<and> jobsFailed (moveToDeadLetter (run saturated_scenario s) plain_job) = 2
            \<and> deadLetterJobs (moveToDeadLetter (run saturated_scenario s) plain_job) = 2"
proof -
  obtain s where s: "fresh_service 3 1 = Inr s"
    by (simp add: eval_defs)
  then have "reachable s"
    unfolding fresh_service_def by (rule reachable.reach_init)
  then have w: "wf_system (run saturated_scenario s)"
    by (intro reachable_wf reachable_run)
  have "dead_letters (run saturated_scenario s) = [failing_job\<lparr>Retries := 1\<rparr>]
      \<and> jobsFailed (run saturated_scenario s) = 1 \<and> deadLetterJobs (run saturated_scenario s) = 1"
    using s [symmetric] by (simp add: eval_defs saturated_scenario_def)
  with moveToDeadLetter_appends_one [OF w, of plain_job] s show ?thesis
    by simp
qed

subsection \<open>The dead-letter listing\<close>

text \<open>
  C7. On a state of the shape all reachable states have, \<open>GetDeadLetterJobs\<close>
  returns a slice whose elements are the dead-letter log, in the log's order (which is
  the order of insertion, by \<open>moveToDeadLetter_dead_letters\<close>), over an array that
  is not the log's. Whatever the holders of returned slices then do (index writes,
  appends, further calls), the log reads the same and the next call returns the same
  sequence; and a later \<open>moveToDeadLetter\<close> does not show through the returned slice.
\<close>

theorem GetDeadLetterJobs_independent_copy:
  assumes "wf_system s" and "GetDeadLetterJobs s = (jobs, s')" and "list_all caller_event evs"
  shows "elems (heap s') jobs = dead_letters s
       \<and> dead_letters s' = dead_letters s
       \<and> sptr jobs \<noteq> sptr (deadLetterLog s')
       \<and> dead_letters (run evs (s'\<lparr>returned := returned s' @ [jobs]\<rparr>)) = dead_letters s
       \<and> elems (heap (snd (GetDeadLetterJobs (run evs (s'\<lparr>returned := returned s' @ [jobs]\<rparr>)))))
            (fst (GetDeadLetterJobs (run evs (s'\<lparr>returned := returned s' @ [jobs]\<rparr>))))
           = dead_letters s
       \<and> elems (heap (moveToDeadLetter (s'\<lparr>returned := returned s' @ [jobs]\<rparr>) job)) jobs
           = dead_letters s"
proof -
  let ?s1 = "s'\<lparr>returned := returned s' @ [jobs]\<rparr>"
  have e: "elems (heap s') jobs = dead_letters s"
    by (rule GetDeadLetterJobs_elems [OF assms(1,2)])
  from GetDeadLetterJobs_dl [OF assms(1)] assms(2) have d: "dead_letters s' = dead_letters s"
    by (simp add: dl_same_def)
  have w1: "wf_system ?s1" by (rule GetDeadLetterJobs_wf [OF assms(1,2)])
  then have p: "sptr jobs \<noteq> sptr (deadLetterLog s')"
    by (simp add: wf_system_def)
  have r: "dead_letters (run evs ?s1) = dead_letters s"
    using caller_run_dead_letters [OF w1 assms(3)] d by simp
  have w2: "wf_system (run evs ?s1)" by (rule run_wf [OF w1])
  obtain jobs2 s2 where g: "GetDeadLetterJobs (run evs ?s1) = (jobs2, s2)"
    by (cases "GetDeadLetterJobs (run evs ?s1)")
  from GetDeadLetterJobs_elems [OF w2 g] r
  have a: "elems (heap (snd (GetDeadLetterJobs (run evs ?s1)))) (fst (GetDeadLetterJobs (run evs ?s1)))
             = dead_letters s"
    by (simp add: g)
  have k: "elems (heap (moveToDeadLetter ?s1 job)) jobs = dead_letters s"
    using moveToDeadLetter_keeps_copy [OF w1, of jobs job] e by simp
  from e d p r a k show ?thesis by blast
qed

theorem GetDeadLetterJobs_independent_copy_witness:
  "case fresh_service 3 1 of
     Inl p \<Rightarrow> False
   | Inr s0 \<Rightarrow>
       (case GetDeadLetterJobs (run saturated_scenario s0) of
          (jobs, s') \<Rightarrow>
            elems (heap s') jobs = [failing_job\<lparr>Retries := 1\<rparr>]
          \<and> elems (heap (run [EvCallerStore 0 0 plain_job] (s'\<lparr>returned := returned s' @ [jobs]\<rparr>))) jobs
              = [plain_job]
          \<and> dead_letters (run [EvCallerStore 0 0 plain_job] (s'\<lparr>returned := returned s' @ [jobs]\<rparr>))
              = [failing_job\<lparr>Retries := 1\<rparr>]
          \<and> elems (heap (snd (GetDeadLetterJobs
                 (run [EvCallerStore 0 0 plain_job] (s'\<lparr>returned := returned s' @ [jobs]\<rparr>)))))
               (fst (GetDeadLetterJobs
                 (run [EvCallerStore 0 0 plain_job] (s'\<lparr>returned := returned s' @ [jobs]\<rparr>))))
              = [failing_job\<lparr>Retries := 1\<rparr>])"
proof -
  obtain s0 where s0: "fresh_service 3 1 = Inr s0"
    by (simp add: eval_defs)
  then have "reachable s0"
    unfolding fresh_service_def by (rule reachable.reach_init)
  then have w: "wf_system (run saturated_scenario s0)"
    by (intro reachable_wf reachable_run)
  obtain jobs s' where g: "GetDeadLetterJobs (run saturated_scenario s0) = (jobs, s')"
    by (cases "GetDeadLetterJobs (run saturated_scenario s0)")
  have c: "list_all caller_event [EvCallerStore 0 0 plain_job]"
    by (simp add: caller_event_def)
  have d: "dead_letters (run saturated_scenario s0) = [failing_job\<lparr>Retries := 1\<rparr>]"
    using s0 [symmetric] by (simp add: eval_defs saturated_scenario_def)
  have m: "elems (heap (run [EvCallerStore 0 0 plain_job] (s'\<lparr>returned := returned s' @ [jobs]\<rparr>))) jobs
              = [plain_job]"
    using s0 [symmetric] g [symmetric] by (simp add: eval_defs saturated_scenario_def)
  from GetDeadLetterJobs_independent_copy [OF w g c] d m s0 g show ?thesis
    by simp
qed

subsection \<open>What the methods do, and the invariants of the run\<close>

lemma wrap64_id: "- (2 ^ 63) \<le> x \<Longrightarrow> x < 2 ^ 63 \<Longrightarrow> wrap64 x = x"
  by (simp add: wrap64_def)

lemma last_index: "xs \<noteq> [] \<Longrightarrow> xs ! (length xs - 1) = last xs"
  by (simp add: last_conv_nth)

lemma delivery_fails_iff:
  "delivery_fails job
     \<longleftrightarrow> Retries job = 0 \<and> 10 < length (Subject job) \<and> last (Subject job) = CHR ''!''"
  by (cases "Subject job = []") (auto simp: delivery_fails_def last_conv_nth)

lemma handleJobFailure_first:
  "Retries job = 0 \<Longrightarrow>
     handleJobFailure s job
       = s\<lparr>logs := logs s @ [LogRetrying 1 (To job)],
           sleeping := sleeping s @ [(1000000000, job\<lparr>Retries := 1\<rparr>)]\<rparr>"
  by (simp add: handleJobFailure_def wrap64_def)

lemma processJob_effect:
  "processJob s job w fault =
     (case fault of
        Some r \<Rightarrow> s\<lparr>logs := logs s @ [LogProcessing w (To job) (Subject job), LogRecovered w r]\<rparr>
      | None \<Rightarrow>
          if delivery_fails job
          then s\<lparr>logs := logs s @ [LogProcessing w (To job) (Subject job), LogRetrying 1 (To job)],
                 sleeping := sleeping s @ [(1000000000, job\<lparr>Retries := 1\<rparr>)]\<rparr>
          else s\<lparr>logs := logs s @ [LogProcessing w (To job) (Subject job), LogSent w (To job)],
                 jobsProcessed := Suc (jobsProcessed s)\<rparr>)"
  by (auto simp: processJob_def processJob_body_def deferred_recover_def handleJobFailure_first
      delivery_fails_def split: option.splits)

lemma retry_send_effect:
  assumes "\<not> closed (retryQueue s)" and "length (buf (retryQueue s)) \<le> dataqsiz (retryQueue s)"
  shows "retry_send s job rcv =
           Inr (if full (retryQueue s) rcv then moveToDeadLetter s job
                else (case rcv of
                        Some r \<Rightarrow> s\<lparr>inflight := inflight s @ [(r, job)]\<rparr>
                      | None \<Rightarrow> s\<lparr>retryQueue := (retryQueue s)\<lparr>buf := buf (retryQueue s) @ [job]\<rparr>\<rparr>))"
  using assms by (auto simp: retry_send_def chansend_nb_def full_def split: option.splits)

lemma EnqueueJob_effect:
  assumes "length (buf (jobQueue s)) \<le> dataqsiz (jobQueue s)"
  shows "EnqueueJob s job rcv =
           (if closed (jobQueue s) then Inl SendOnClosedChannel
            else if full (jobQueue s) rcv then Inr (Some QueueIsFull, s)
            else Inr (None,
                   case rcv of
                     Some r \<Rightarrow> s\<lparr>inflight := inflight s @ [(r, job)]\<rparr>
                   | None \<Rightarrow> s\<lparr>jobQueue := (jobQueue s)\<lparr>buf := buf (jobQueue s) @ [job]\<rparr>\<rparr>))"
  using assms by (auto simp: EnqueueJob_def chansend_nb_def full_def split: option.splits)

lemma moveToDeadLetter_chans [simp]: "chans_ok (moveToDeadLetter s job) = chans_ok s"
  by (simp add: chans_ok_def moveToDeadLetter_fields)

lemma processJob_fields:
  "jobQueue (processJob s job w fault) = jobQueue s"
  "retryQueue (processJob s job w fault) = retryQueue s"
  "inflight (processJob s job w fault) = inflight s"
  "live (processJob s job w fault) = live s"
  "dead_letters (processJob s job w fault) = dead_letters s"
  "jobsFailed (processJob s job w fault) = jobsFailed s"
  "deadLetterJobs (processJob s job w fault) = deadLetterJobs s"
  "shutdown (processJob s job w fault) = shutdown s"
  by (simp_all add: processJob_effect dead_letters_def split: option.splits)

lemma step_chans_ok: "chans_ok s \<Longrightarrow> chans_ok (step e s)"
proof (cases e)
  case (EvEnqueue job rcv)
  then show ?thesis if "chans_ok s"
    using that by (auto simp: chans_ok_def EnqueueJob_def chansend_nb_def
        split: sum.splits option.splits if_splits)
next
  case (EvFire i rcv)
  then show ?thesis if "chans_ok s"
    using that by (auto simp: chans_ok_def retry_send_def chansend_nb_def moveToDeadLetter_fields
        split: sum.splits option.splits if_splits)
next
  case (EvProcess w fault)
  then show ?thesis if "chans_ok s"
    using that by (auto simp: chans_ok_def processJob_fields split: option.splits)
next
  case EvList
  then show ?thesis if "chans_ok s"
    using that by (auto simp: chans_ok_def GetDeadLetterJobs_def make_slice_def split: prod.splits)
next
  case (EvCallerStore k i v)
  then show ?thesis if "chans_ok s"
    using that by (auto simp: chans_ok_def split: sum.splits)
next
  case (EvCallerAppend k v)
  then show ?thesis if "chans_ok s"
    using that by (auto simp: chans_ok_def split: prod.splits)
qed (auto simp: chans_ok_def Start_def recv_from_def chanrecv_def Shutdown_def Let_def
       split: option.splits list.splits if_splits)

lemma reachable_chans_ok: "reachable s \<Longrightarrow> chans_ok s"
proof (induction rule: reachable.induct)
  case (reach_init reg lim g w q s)
  from NewEmailService_Inr [OF this] show ?case by (auto simp: chans_ok_def)
next
  case (reach_step s e)
  then show ?case by (simp add: step_chans_ok)
qed

lemma workers_ok_updates [simp]:
  "workers_ok (s\<lparr>logs := a1\<rparr>) = workers_ok s"
  "workers_ok (s\<lparr>jobQueue := a2\<rparr>) = workers_ok s"
  "workers_ok (s\<lparr>retryQueue := a3\<rparr>) = workers_ok s"
  "workers_ok (s\<lparr>sleeping := a5\<rparr>) = workers_ok s"
  "workers_ok (s\<lparr>monitors := a7\<rparr>) = workers_ok s"
  "workers_ok (s\<lparr>shutdown := a8\<rparr>) = workers_ok s"
  "workers_ok (s\<lparr>queueLength := a9\<rparr>) = workers_ok s"
  "workers_ok (s\<lparr>jobsProcessed := a10\<rparr>) = workers_ok s"
  "workers_ok (s\<lparr>returned := a11\<rparr>) = workers_ok s"
  "workers_ok (s\<lparr>heap := a12\<rparr>) = workers_ok s"
  by (simp_all add: workers_ok_def)

lemma workers_ok_moveToDeadLetter [simp]: "workers_ok (moveToDeadLetter s job) = workers_ok s"
  by (simp add: workers_ok_def moveToDeadLetter_fields)

lemma workers_ok_processJob [simp]: "workers_ok (processJob s job w fault) = workers_ok s"
  by (simp add: workers_ok_def processJob_fields)

lemma workers_ok_add:
  "workers_ok s \<Longrightarrow> idle s w \<Longrightarrow> workers_ok (s\<lparr>inflight := inflight s @ [(w, job)]\<rparr>)"
  by (auto simp: workers_ok_def idle_def map_of_eq_None_iff)

lemma workers_ok_remove:
  "workers_ok s \<Longrightarrow> workers_ok (s\<lparr>inflight := remove1 x (inflight s)\<rparr>)"
  by (auto simp: workers_ok_def list_all_iff distinct_map intro: inj_on_subset dest: notin_set_remove1)

lemma workers_ok_exit:
  "workers_ok s \<Longrightarrow> idle s w \<Longrightarrow> workers_ok (s\<lparr>live := remove1 w (live s)\<rparr>)"
proof -
  assume a: "workers_ok s" "idle s w"
  have "x \<in> set (remove1 w (live s))" if "(x, j) \<in> set (inflight s)" for x j
  proof -
    from that a have "x \<in> set (live s)" by (auto simp: workers_ok_def list_all_iff)
    moreover from that a have "x \<noteq> w" by (force simp: idle_def map_of_eq_None_iff)
    ultimately show ?thesis by (simp add: in_set_remove1)
  qed
  with a show ?thesis by (auto simp: workers_ok_def list_all_iff)
qed

lemma chansend_nb_Direct: "chansend_nb c x rcv = Direct r \<Longrightarrow> rcv = Some r"
  by (auto simp: chansend_nb_def split: if_splits option.splits)

lemma step_workers_ok:
  assumes "workers_ok s"
  shows "workers_ok (step e s)"
proof (cases e)
  case EvStart
  with assms show ?thesis by (auto simp: Start_def workers_ok_def list_all_iff)
next
  case (EvEnqueue job rcv)
  with assms show ?thesis
    by (auto simp: EnqueueJob_def rcv_ok_def workers_ok_add dest!: chansend_nb_Direct
        split: sum.splits send_result.splits)
next
  case (EvRecvJob w)
  with assms show ?thesis
    by (auto simp: recv_from_def workers_ok_def idle_def map_of_eq_None_iff split: option.splits)
next
  case (EvRecvRetry w)
  with assms show ?thesis
    by (auto simp: recv_from_def workers_ok_def idle_def map_of_eq_None_iff split: option.splits)
next
  case (EvProcess w fault)
  with assms show ?thesis
    by (auto simp: workers_ok_remove split: option.splits)
next
  case (EvFire i rcv)
  with assms show ?thesis
    by (auto simp: retry_send_def rcv_ok_def idle_def workers_ok_def map_of_eq_None_iff
        moveToDeadLetter_fields dest!: chansend_nb_Direct split: sum.splits send_result.splits)
next
  case EvTick
  with assms show ?thesis by simp
next
  case EvList
  with assms show ?thesis by (auto simp: GetDeadLetterJobs_def make_slice_def)
next
  case (EvCallerStore k i v)
  with assms show ?thesis by (auto split: sum.splits)
next
  case (EvCallerAppend k v)
  with assms show ?thesis by (auto split: prod.splits)
next
  case (EvExit w)
  with assms show ?thesis by (auto simp: workers_ok_exit [simplified])
next
  case EvShutdown
  with assms show ?thesis by (auto simp: Shutdown_def Let_def)
qed

lemma reachable_workers_ok: "reachable s \<Longrightarrow> workers_ok s"
proof (induction rule: reachable.induct)
  case (reach_init reg lim g w q s)
  from NewEmailService_Inr [OF this] show ?case by (auto simp: workers_ok_def)
next
  case (reach_step s e)
  then show ?case by (simp add: step_workers_ok)
qed

lemma failed_once_frame:
  assumes "failed_once s" and "sleeping s' = sleeping s" and "retryQueue s' = retryQueue s"
    and "dead_letters s' = dead_letters s"
  shows "failed_once s'"
  using assms by (simp add: failed_once_def)

lemma step_failed_once:
  assumes "wf_system s" and "failed_once s"
  shows "failed_once (step e s)"
proof (cases e)
  case EvStart
  with assms(2) show ?thesis by (auto simp: Start_def elim!: failed_once_frame)
next
  case (EvEnqueue job rcv)
  with assms(2) show ?thesis
    by (auto simp: EnqueueJob_def elim!: failed_once_frame split: sum.splits send_result.splits)
next
  case (EvRecvJob w)
  with assms(2) show ?thesis
    by (auto simp: recv_from_def elim!: failed_once_frame split: option.splits)
next
  case (EvRecvRetry w)
  with assms(2) show ?thesis
    by (auto simp: recv_from_def chanrecv_def failed_once_def split: option.splits list.splits if_splits)
next
  case (EvProcess w fault)
  with assms(2) show ?thesis
    by (auto simp: processJob_effect failed_once_def split: option.splits)
next
  case (EvFire i rcv)
  show ?thesis
  proof (cases "i < length (sleeping s) \<and> rcv_ok s rcv False")
    case False
    with EvFire assms(2) show ?thesis by auto
  next
    case True
    let ?s1 = "s\<lparr>sleeping := take i (sleeping s) @ drop (Suc i) (sleeping s)\<rparr>"
    let ?job = "snd (sleeping s ! i)"
    from True have "sleeping s ! i \<in> set (sleeping s)" by simp
    with assms(2) have j: "Retries ?job = 1"
      by (cases "sleeping s ! i") (auto simp: failed_once_def list_all_iff)
    have "set (take i (sleeping s) @ drop (Suc i) (sleeping s)) \<subseteq> set (sleeping s)"
      by (auto dest: in_set_takeD in_set_dropD)
    with assms(2) have f1: "failed_once ?s1"
      by (auto simp: failed_once_def list_all_iff)
    have w1: "wf_system ?s1" using assms(1) by simp
    have "failed_once s'" if "retry_send ?s1 ?job rcv = Inr s'" for s'
      using that f1 j moveToDeadLetter_dead_letters [OF w1, of ?job]
      by (auto simp: retry_send_def failed_once_def moveToDeadLetter_fields
          dest!: chansend_nb_Direct split: send_result.splits)
         (auto simp: chansend_nb_def split: if_splits option.splits)
    with True EvFire assms(2) show ?thesis by (auto split: sum.splits)
  qed
next
  case EvTick
  with assms(2) show ?thesis by (auto elim!: failed_once_frame)
next
  case EvList
  with assms(2) step_dl_other [OF assms(1), of EvList] show ?thesis
    by (auto simp: may_record_def dl_same_def GetDeadLetterJobs_def make_slice_def
        elim!: failed_once_frame)
next
  case (EvCallerStore k i v)
  with assms(2) step_dl_other [OF assms(1), of e] show ?thesis
    by (auto simp: may_record_def dl_same_def elim!: failed_once_frame split: sum.splits)
next
  case (EvCallerAppend k v)
  with assms(2) step_dl_other [OF assms(1), of e] show ?thesis
    by (auto simp: may_record_def dl_same_def elim!: failed_once_frame split: prod.splits)
next
  case (EvExit w)
  with assms(2) show ?thesis by (auto elim!: failed_once_frame)
next
  case EvShutdown
  with assms(2) show ?thesis by (auto simp: Shutdown_def Let_def elim!: failed_once_frame)
qed

lemma reachable_failed_once: "reachable s \<Longrightarrow> failed_once s"
proof (induction rule: reachable.induct)
  case (reach_init reg lim g w q s)
  from NewEmailService_Inr [OF this] show ?case
    by (auto simp: failed_once_def dead_letters_def elems_def)
next
  case (reach_step s e)
  then show ?case by (simp add: step_failed_once reachable_wf)
qed

subsection \<open>Processing a job\<close>

lemma map_of_remove1_None:
  "distinct (map fst xs) \<Longrightarrow> (k, v) \<in> set xs \<Longrightarrow> map_of (remove1 (k, v) xs) k = None"
  by (induction xs) (auto simp: map_of_eq_None_iff rev_image_eqI)

text \<open>
  C2. Without a fault, \<open>processJob\<close> fails exactly when the retry count is 0 and the
  subject is longer than 10 bytes and ends with \<open>!\<close>: it then is
  \<open>handleJobFailure\<close> (after the log line), which leaves the processed counter alone
  and puts the job to sleep for its retry. In every other case the result is the state
  it started from with the two log lines and the processed counter one higher: the job
  is in no queue, no sleeper and no dead-letter record.
\<close>

theorem processJob_fails_iff:
  "(if Retries job = 0 \<and> 10 < length (Subject job) \<and> last (Subject job) = CHR ''!''
    then processJob s job w None
           = handleJobFailure (s\<lparr>logs := logs s @ [LogProcessing w (To job) (Subject job)]\<rparr>) job
       \<and> jobsProcessed (processJob s job w None) = jobsProcessed s
       \<and> sleeping (processJob s job w None) = sleeping s @ [(1000000000, job\<lparr>Retries := 1\<rparr>)]
    else processJob s job w None
           = s\<lparr>logs := logs s @ [LogProcessing w (To job) (Subject job), LogSent w (To job)],
               jobsProcessed := Suc (jobsProcessed s)\<rparr>)"
  by (simp add: processJob_effect delivery_fails_iff [symmetric] handleJobFailure_first
      delivery_fails_def)

theorem processJob_fails_iff_witness:
  "case fresh_service 3 100 of
     Inl p \<Rightarrow> False
   | Inr s \<Rightarrow>
       jobsProcessed (processJob s failing_job 1 None) = 0
     \<and> sleeping (processJob s failing_job 1 None) = [(1000000000, failing_job\<lparr>Retries := 1\<rparr>)]
     \<and> jobsProcessed (processJob s plain_job 1 None) = 1
     \<and> sleeping (processJob s plain_job 1 None) = []
     \<and> jobsProcessed (processJob s (failing_job\<lparr>Retries := 1\<rparr>) 1 None) = 1"
proof -
  obtain s where s: "fresh_service 3 100 = Inr s"
    by (simp add: eval_defs)
  have z: "jobsProcessed s = 0 \<and> sleeping s = []"
    using s [symmetric] by (simp add: eval_defs)
  from processJob_fails_iff [of failing_job s 1] processJob_fails_iff [of plain_job s 1]
    processJob_fails_iff [of "failing_job\<lparr>Retries := 1\<rparr>" s 1] z s
  show ?thesis by (simp add: failing_job_def plain_job_def handleJobFailure_first)
qed

text \<open>
  C6, as the code has it. A fault raised while a job is processed is caught by the
  deferred function and logged, and that is all: \<open>processJob\<close> returns the state it
  started from with the two log lines. The job is not handed to \<open>handleJobFailure\<close>:
  it is not put to sleep for a retry, not queued, not dead-lettered and not counted. In
  a run, the worker that held the job is live and idle afterwards, ready for the next.
\<close>

theorem processJob_fault_drops_job:
  "processJob s job w (Some r)
     = s\<lparr>logs := logs s @ [LogProcessing w (To job) (Subject job), LogRecovered w r]\<rparr>
   \<and> (reachable s \<and> map_of (inflight s) w = Some job \<longrightarrow>
        idle (step (EvProcess w (Some r)) s) w
      \<and> live (step (EvProcess w (Some r)) s) = live s
      \<and> inflight (step (EvProcess w (Some r)) s) = remove1 (w, job) (inflight s)
      \<and> sleeping (step (EvProcess w (Some r)) s) = sleeping s
      \<and> retryQueue (step (EvProcess w (Some r)) s) = retryQueue s
      \<and> jobQueue (step (EvProcess w (Some r)) s) = jobQueue s
      \<and> dead_letters (step (EvProcess w (Some r)) s) = dead_letters s
      \<and> jobsProcessed (step (EvProcess w (Some r)) s) = jobsProcessed s
      \<and> jobsFailed (step (EvProcess w (Some r)) s) = jobsFailed s
      \<and> deadLetterJobs (step (EvProcess w (Some r)) s) = deadLetterJobs s)"
proof -
  have "idle (step (EvProcess w (Some r)) s) w"
    if r: "reachable s" and m: "map_of (inflight s) w = Some job"
  proof -
    from reachable_workers_ok [OF r] have d: "distinct (map fst (inflight s))"
      and l: "list_all (\<lambda>(w, j). w \<in> set (live s)) (inflight s)"
      by (simp_all add: workers_ok_def)
    from m have i: "(w, job) \<in> set (inflight s)" by (rule map_of_SomeD)
    with l have "w \<in> set (live s)" by (auto simp: list_all_iff)
    moreover have "map_of (remove1 (w, job) (inflight s)) w = None"
      by (rule map_of_remove1_None [OF d i])
    ultimately show ?thesis using m
      by (simp add: idle_def processJob_fields)
  qed
  then show ?thesis
    by (auto simp: processJob_effect dead_letters_def)
qed

theorem processJob_fault_drops_job_witness:
  "case fresh_service 3 100 of
     Inl p \<Rightarrow> False
   | Inr s \<Rightarrow>
       idle (run (received_scenario @ [EvProcess 1 (Some (Fault ''smtp''))]) s) 1
     \<and> sleeping (run (received_scenario @ [EvProcess 1 (Some (Fault ''smtp''))]) s) = []
     \<and> jobsProcessed (run (received_scenario @ [EvProcess 1 (Some (Fault ''smtp'')),
          EvEnqueue plain_job None, EvRecvJob 1, EvProcess 1 None]) s) = 1"
proof -
  obtain s where s: "fresh_service 3 100 = Inr s"
    by (simp add: eval_defs)
  then have "reachable s"
    unfolding fresh_service_def by (rule reachable.reach_init)
  then have r: "reachable (run received_scenario s)"
    by (rule reachable_run)
  have m: "map_of (inflight (run received_scenario s)) 1 = Some failing_job
      \<and> sleeping (run received_scenario s) = []"
    using s [symmetric] by (simp add: eval_defs received_scenario_def)
  have p: "jobsProcessed (run (received_scenario @ [EvProcess 1 (Some (Fault ''smtp'')),
          EvEnqueue plain_job None, EvRecvJob 1, EvProcess 1 None]) s) = 1"
    using s [symmetric] by (simp add: eval_defs received_scenario_def)
  from processJob_fault_drops_job [of "run received_scenario s" failing_job 1 "Fault ''smtp''"]
    r m p s
  show ?thesis by (simp add: run_append)
qed

text \<open>
  C6 as stated fails: worker 1 holds the failing job of the retry scenario; when the
  delivery faults, the job is gone (no sleeper, nothing queued, in flight or
  dead-lettered, nothing counted), whereas the same job failing its delivery normally
  is put to sleep for its retry.
\<close>

theorem fault_not_retried_counterexample:
  "case fresh_service 3 100 of
     Inl p \<Rightarrow> False
   | Inr s \<Rightarrow>
       sleeping (run (received_scenario @ [EvProcess 1 (Some (Fault ''smtp''))]) s) = []
     \<and> inflight (run (received_scenario @ [EvProcess 1 (Some (Fault ''smtp''))]) s) = []
     \<and> buf (retryQueue (run (received_scenario @ [EvProcess 1 (Some (Fault ''smtp''))]) s)) = []
     \<and> buf (jobQueue (run (received_scenario @ [EvProcess 1 (Some (Fault ''smtp''))]) s)) = []
     \<and> dead_letters (run (received_scenario @ [EvProcess 1 (Some (Fault ''smtp''))]) s) = []
     \<and> jobsProcessed (run (received_scenario @ [EvProcess 1 (Some (Fault ''smtp''))]) s) = 0
     \<and> jobsFailed (run (received_scenario @ [EvProcess 1 (Some (Fault ''smtp''))]) s) = 0
     \<and> sleeping (run (received_scenario @ [EvProcess 1 None]) s)
         = [(1000000000, failing_job\<lparr>Retries := 1\<rparr>)]"
  by (simp add: eval_defs received_scenario_def)

subsection \<open>Retrying, enqueueing and shutting down\<close>

lemma handleJobFailure_effect:
  assumes "0 \<le> Retries job" and "Retries job < 2 ^ 63 - 1"
  shows "handleJobFailure s job =
           (if Retries job + 1 \<le> 3
            then s\<lparr>logs := logs s @ [LogRetrying (Retries job + 1) (To job)],
                   sleeping := sleeping s
                     @ [((Retries job + 1) * 1000000000, job\<lparr>Retries := Retries job + 1\<rparr>)]\<rparr>
            else moveToDeadLetter (s\<lparr>logs := logs s @ [LogPermanentlyFailed (To job)]\<rparr>)
                   (job\<lparr>Retries := Retries job + 1\<rparr>))"
proof -
  from assms have "wrap64 (Retries job + 1) = Retries job + 1"
    by (intro wrap64_id) auto
  moreover have "wrap64 (Retries job * 1000000000 + 1000000000)
      = Retries job * 1000000000 + 1000000000" if "Retries job \<le> 2"
    using that assms by (intro wrap64_id) auto
  ultimately show ?thesis
    by (simp add: handleJobFailure_def Let_def)
qed

lemma failed_once_bounds:
  assumes "failed_once s"
  shows "list_all (\<lambda>(d, j). Retries j \<le> 3 \<and> d = Retries j * 1000000000) (sleeping s)
       \<and> list_all (\<lambda>j. Retries j \<le> 3) (buf (retryQueue s))"
  using assms by (auto simp: failed_once_def list_all_iff)

lemma full_at_capacity:
  "length (buf c) \<le> dataqsiz c \<Longrightarrow>
     full c rcv = (length (buf c) = dataqsiz c \<and> (rcv = None \<or> 0 < dataqsiz c))"
  by (auto simp: full_def)

lemma timer_fires:
  assumes "wf_system u" and "chans_ok u" and "i < length (sleeping u)" and "rcv_ok u rcv False"
  shows "sleeping (step (EvFire i rcv) u) = take i (sleeping u) @ drop (Suc i) (sleeping u)
       \<and> (if length (buf (retryQueue u)) = dataqsiz (retryQueue u)
               \<and> (rcv = None \<or> 0 < dataqsiz (retryQueue u))
          then dead_letters (step (EvFire i rcv) u) = dead_letters u @ [snd (sleeping u ! i)]
             \<and> jobsFailed (step (EvFire i rcv) u) = Suc (jobsFailed u)
             \<and> deadLetterJobs (step (EvFire i rcv) u) = Suc (deadLetterJobs u)
             \<and> retryQueue (step (EvFire i rcv) u) = retryQueue u
             \<and> inflight (step (EvFire i rcv) u) = inflight u
          else dead_letters (step (EvFire i rcv) u) = dead_letters u
             \<and> jobsFailed (step (EvFire i rcv) u) = jobsFailed u
             \<and> deadLetterJobs (step (EvFire i rcv) u) = deadLetterJobs u
             \<and> (case rcv of
                  None \<Rightarrow> buf (retryQueue (step (EvFire i rcv) u))
                            = buf (retryQueue u) @ [snd (sleeping u ! i)]
                          \<and> inflight (step (EvFire i rcv) u) = inflight u
                | Some r \<Rightarrow> inflight (step (EvFire i rcv) u)
                            = inflight u @ [(r, snd (sleeping u ! i))]
                          \<and> retryQueue (step (EvFire i rcv) u) = retryQueue u))"
proof -
  let ?u1 = "u\<lparr>sleeping := take i (sleeping u) @ drop (Suc i) (sleeping u)\<rparr>"
  from assms(2) have c: "\<not> closed (retryQueue ?u1)"
      "length (buf (retryQueue ?u1)) \<le> dataqsiz (retryQueue ?u1)"
    by (simp_all add: chans_ok_def)
  from assms(1) have w: "wf_system ?u1" by simp
  from c(2) have f: "full (retryQueue u) rcv
      = (length (buf (retryQueue u)) = dataqsiz (retryQueue u)
           \<and> (rcv = None \<or> 0 < dataqsiz (retryQueue u)))"
    by (simp add: full_at_capacity)
  from assms(3,4) retry_send_effect [OF c, of "snd (sleeping u ! i)" rcv]
    moveToDeadLetter_dead_letters [OF w, of "snd (sleeping u ! i)"]
  show ?thesis
    unfolding f [symmetric]
    by (auto simp: moveToDeadLetter_fields split: option.splits)
qed

lemma invariants_frame:
  assumes "reachable u"
  shows "wf_system u \<and> chans_ok u
       \<and> wf_system (u\<lparr>inflight := a, logs := b\<rparr>) \<and> chans_ok (u\<lparr>inflight := a, logs := b\<rparr>)"
  using reachable_wf [OF assms] reachable_chans_ok [OF assms]
  by (simp add: chans_ok_def)

text \<open>
  C3, as the code has it. For a job with a retry count from 0 up (and below the largest
  \<open>int\<close>, where \<open>++\<close> would wrap), \<open>handleJobFailure\<close> makes the count one higher.
  If the new count is at most 3 it logs and starts one goroutine that sleeps that many
  seconds (1, 2, 3; the state is otherwise unchanged, no worker waits); otherwise it
  gives the job to \<open>moveToDeadLetter\<close>. When the timer of the goroutine it started
  fires, that goroutine is gone from the sleepers and its job, with the new count, is
  re-submitted without blocking: if the retry queue then holds as many jobs as its
  capacity and no receiver can take the job (none waits, or the queue has a buffer), the
  job goes to the end of the dead-letter log and both failure counters go up by one;
  otherwise it goes to the tail of the retry queue, or into the hands of the waiting
  receiver, and the dead-letter log and its counters stay as they are. The same holds
  for every sleeper of every reachable state. Every reachable state, also as
  \<open>processJob\<close> passes it to \<open>handleJobFailure\<close>, has the shape this needs, and in
  it every sleeper and every job in the retry queue has a count of at most 3 and sleeps
  its count in seconds.
\<close>

theorem handleJobFailure_retry_policy:
  assumes "0 \<le> Retries job" and "Retries job < 2 ^ 63 - 1"
  shows "handleJobFailure s job =
           (if Retries job + 1 \<le> 3
            then s\<lparr>logs := logs s @ [LogRetrying (Retries job + 1) (To job)],
                   sleeping := sleeping s
                     @ [((Retries job + 1) * 1000000000, job\<lparr>Retries := Retries job + 1\<rparr>)]\<rparr>
            else moveToDeadLetter (s\<lparr>logs := logs s @ [LogPermanentlyFailed (To job)]\<rparr>)
                   (job\<lparr>Retries := Retries job + 1\<rparr>))
       \<and> (Retries job + 1 \<le> 3 \<and> wf_system s \<and> chans_ok s \<and> rcv_ok s rcv False \<longrightarrow>
            sleeping (step (EvFire (length (sleeping s)) rcv) (handleJobFailure s job)) = sleeping s
          \<and> (if length (buf (retryQueue s)) = dataqsiz (retryQueue s)
                  \<and> (rcv = None \<or> 0 < dataqsiz (retryQueue s))
             then dead_letters (step (EvFire (length (sleeping s)) rcv) (handleJobFailure s job))
                    = dead_letters s @ [job\<lparr>Retries := Retries job + 1\<rparr>]
                \<and> jobsFailed (step (EvFire (length (sleeping s)) rcv) (handleJobFailure s job))
                    = Suc (jobsFailed s)
                \<and> deadLetterJobs (step (EvFire (length (sleeping s)) rcv) (handleJobFailure s job))
                    = Suc (deadLetterJobs s)
                \<and> retryQueue (step (EvFire (length (sleeping s)) rcv) (handleJobFailure s job))
                    = retryQueue s
                \<and> inflight (step (EvFire (length (sleeping s)) rcv) (handleJobFailure s job))
                    = inflight s
             else dead_letters (step (EvFire (length (sleeping s)) rcv) (handleJobFailure s job))
                    = dead_letters s
                \<and> jobsFailed (step (EvFire (length (sleeping s)) rcv) (handleJobFailure s job))
                    = jobsFailed s
                \<and> deadLetterJobs (step (EvFire (length (sleeping s)) rcv) (handleJobFailure s job))
                    = deadLetterJobs s
                \<and> (case rcv of
                     None \<Rightarrow>
                       buf (retryQueue (step (EvFire (length (sleeping s)) rcv) (handleJobFailure s job)))
                         = buf (retryQueue s) @ [job\<lparr>Retries := Retries job + 1\<rparr>]
                     \<and> inflight (step (EvFire (length (sleeping s)) rcv) (handleJobFailure s job))
                         = inflight s
                   | Some r \<Rightarrow>
                       inflight (step (EvFire (length (sleeping s)) rcv) (handleJobFailure s job))
                         = inflight s @ [(r, job\<lparr>Retries := Retries job + 1\<rparr>)]
                     \<and> retryQueue (step (EvFire (length (sleeping s)) rcv) (handleJobFailure s job))
                         = retryQueue s)))
       \<and> (reachable u \<and> i < length (sleeping u) \<and> rcv_ok u rcv' False \<longrightarrow>
            sleeping (step (EvFire i rcv') u) = take i (sleeping u) @ drop (Suc i) (sleeping u)
          \<and> (if length (buf (retryQueue u)) = dataqsiz (retryQueue u)
                  \<and> (rcv' = None \<or> 0 < dataqsiz (retryQueue u))
             then dead_letters (step (EvFire i rcv') u) = dead_letters u @ [snd (sleeping u ! i)]
                \<and> jobsFailed (step (EvFire i rcv') u) = Suc (jobsFailed u)
                \<and> deadLetterJobs (step (EvFire i rcv') u) = Suc (deadLetterJobs u)
                \<and> retryQueue (step (EvFire i rcv') u) = retryQueue u
                \<and> inflight (step (EvFire i rcv') u) = inflight u
             else dead_letters (step (EvFire i rcv') u) = dead_letters u
                \<and> jobsFailed (step (EvFire i rcv') u) = jobsFailed u
                \<and> deadLetterJobs (step (EvFire i rcv') u) = deadLetterJobs u
                \<and> (case rcv' of
                     None \<Rightarrow> buf (retryQueue (step (EvFire i rcv') u))
                               = buf (retryQueue u) @ [snd (sleeping u ! i)]
                             \<and> inflight (step (EvFire i rcv') u) = inflight u
                   | Some r \<Rightarrow> inflight (step (EvFire i rcv') u)
                               = inflight u @ [(r, snd (sleeping u ! i))]
                             \<and> retryQueue (step (EvFire i rcv') u) = retryQueue u)))
       \<and> (reachable u \<longrightarrow>
            wf_system u \<and> chans_ok u
          \<and> wf_system (u\<lparr>inflight := a, logs := b\<rparr>) \<and> chans_ok (u\<lparr>inflight := a, logs := b\<rparr>)
          \<and> list_all (\<lambda>(d, j). Retries j \<le> 3 \<and> d = Retries j * 1000000000) (sleeping u)
          \<and> list_all (\<lambda>j. Retries j \<le> 3) (buf (retryQueue u)))"
proof -
  let ?job' = "job\<lparr>Retries := Retries job + 1\<rparr>"
  let ?s' = "s\<lparr>logs := logs s @ [LogRetrying (Retries job + 1) (To job)],
               sleeping := sleeping s @ [((Retries job + 1) * 1000000000, ?job')]\<rparr>"
  note A = handleJobFailure_effect [OF assms, of s]
  have B: "sleeping (step (EvFire (length (sleeping s)) rcv) (handleJobFailure s job)) = sleeping s
          \<and> (if length (buf (retryQueue s)) = dataqsiz (retryQueue s)
                  \<and> (rcv = None \<or> 0 < dataqsiz (retryQueue s))
             then dead_letters (step (EvFire (length (sleeping s)) rcv) (handleJobFailure s job))
                    = dead_letters s @ [?job']
                \<and> jobsFailed (step (EvFire (length (sleeping s)) rcv) (handleJobFailure s job))
                    = Suc (jobsFailed s)
                \<and> deadLetterJobs (step (EvFire (length (sleeping s)) rcv) (handleJobFailure s job))
                    = Suc (deadLetterJobs s)
                \<and> retryQueue (step (EvFire (length (sleeping s)) rcv) (handleJobFailure s job))
                    = retryQueue s
                \<and> inflight (step (EvFire (length (sleeping s)) rcv) (handleJobFailure s job))
                    = inflight s
             else dead_letters (step (EvFire (length (sleeping s)) rcv) (handleJobFailure s job))
                    = dead_letters s
                \<and> jobsFailed (step (EvFire (length (sleeping s)) rcv) (handleJobFailure s job))
                    = jobsFailed s
                \<and> deadLetterJobs (step (EvFire (length (sleeping s)) rcv) (handleJobFailure s job))
                    = deadLetterJobs s
                \<and> (case rcv of
                     None \<Rightarrow>
                       buf (retryQueue (step (EvFire (length (sleeping s)) rcv) (handleJobFailure s job)))
                         = buf (retryQueue s) @ [?job']
                     \<and> inflight (step (EvFire (length (sleeping s)) rcv) (handleJobFailure s job))
                         = inflight s
                   | Some r \<Rightarrow>
                       inflight (step (EvFire (length (sleeping s)) rcv) (handleJobFailure s job))
                         = inflight s @ [(r, ?job')]
                     \<and> retryQueue (step (EvFire (length (sleeping s)) rcv) (handleJobFailure s job))
                         = retryQueue s))"
    if h: "Retries job + 1 \<le> 3" "wf_system s" "chans_ok s" "rcv_ok s rcv False"
  proof -
    from h(1) A have e: "handleJobFailure s job = ?s'" by simp
    from h(2) have w: "wf_system ?s'" by simp
    from h(3) have c: "chans_ok ?s'" by (simp add: chans_ok_def)
    have i: "length (sleeping s) < length (sleeping ?s')" by simp
    from h(4) have r: "rcv_ok ?s' rcv False"
      by (cases rcv) (simp_all add: rcv_ok_def idle_def)
    note f = timer_fires [OF w c i r]
    show ?thesis
    proof (cases rcv)
      case None
      with f show ?thesis
        unfolding e
        by (cases "length (buf (retryQueue s)) = dataqsiz (retryQueue s)")
           (simp_all del: step.simps)
    next
      case (Some x)
      with f show ?thesis
        unfolding e
        by (cases "length (buf (retryQueue s)) = dataqsiz (retryQueue s)
                     \<and> 0 < dataqsiz (retryQueue s)")
           (simp_all del: step.simps)
    qed
  qed
  have C: "reachable u \<and> i < length (sleeping u) \<and> rcv_ok u rcv' False \<longrightarrow>
            sleeping (step (EvFire i rcv') u) = take i (sleeping u) @ drop (Suc i) (sleeping u)
          \<and> (if length (buf (retryQueue u)) = dataqsiz (retryQueue u)
                  \<and> (rcv' = None \<or> 0 < dataqsiz (retryQueue u))
             then dead_letters (step (EvFire i rcv') u) = dead_letters u @ [snd (sleeping u ! i)]
                \<and> jobsFailed (step (EvFire i rcv') u) = Suc (jobsFailed u)
                \<and> deadLetterJobs (step (EvFire i rcv') u) = Suc (deadLetterJobs u)
                \<and> retryQueue (step (EvFire i rcv') u) = retryQueue u
                \<and> inflight (step (EvFire i rcv') u) = inflight u
             else dead_letters (step (EvFire i rcv') u) = dead_letters u
                \<and> jobsFailed (step (EvFire i rcv') u) = jobsFailed u
                \<and> deadLetterJobs (step (EvFire i rcv') u) = deadLetterJobs u
                \<and> (case rcv' of
                     None \<Rightarrow> buf (retryQueue (step (EvFire i rcv') u))
                               = buf (retryQueue u) @ [snd (sleeping u ! i)]
                             \<and> inflight (step (EvFire i rcv') u) = inflight u
                   | Some r \<Rightarrow> inflight (step (EvFire i rcv') u)
                               = inflight u @ [(r, snd (sleeping u ! i))]
                             \<and> retryQueue (step (EvFire i rcv') u) = retryQueue u))"
    using timer_fires [OF reachable_wf reachable_chans_ok, of u i rcv'] by blast
  have D: "reachable u \<longrightarrow>
            wf_system u \<and> chans_ok u
          \<and> wf_system (u\<lparr>inflight := a, logs := b\<rparr>) \<and> chans_ok (u\<lparr>inflight := a, logs := b\<rparr>)
          \<and> list_all (\<lambda>(d, j). Retries j \<le> 3 \<and> d = Retries j * 1000000000) (sleeping u)
          \<and> list_all (\<lambda>j. Retries j \<le> 3) (buf (retryQueue u))"
    using invariants_frame [where u = u and a = a and b = b] failed_once_bounds [OF reachable_failed_once, of u]
    by blast
  from A B C D show ?thesis by blast
qed

theorem handleJobFailure_retry_policy_witness:
  "(case fresh_service 3 100 of
      Inl p \<Rightarrow> False
    | Inr s \<Rightarrow>
        sleeping (handleJobFailure s (failed_times 0)) = [(1000000000, failed_times 1)]
      \<and> sleeping (handleJobFailure s (failed_times 2)) = [(3000000000, failed_times 3)]
      \<and> dead_letters (handleJobFailure s (failed_times 3)) = [failed_times 4]
      \<and> sleeping (handleJobFailure s (failed_times 3)) = []
      \<and> sleeping (step (EvFire 0 None) (handleJobFailure s (failed_times 0))) = []
      \<and> buf (retryQueue (step (EvFire 0 None) (handleJobFailure s (failed_times 0))))
          = [failed_times 1]
      \<and> dead_letters (step (EvFire 0 None) (handleJobFailure s (failed_times 0))) = [])
   \<and> (case fresh_service 3 1 of
      Inl p \<Rightarrow> False
    | Inr s \<Rightarrow>
        sleeping (step (EvFire 0 None) (handleJobFailure s (failed_times 0))) = []
      \<and> buf (retryQueue (step (EvFire 0 None) (handleJobFailure s (failed_times 0)))) = []
      \<and> dead_letters (step (EvFire 0 None) (handleJobFailure s (failed_times 0)))
          = [failed_times 1]
      \<and> jobsFailed (step (EvFire 0 None) (handleJobFailure s (failed_times 0))) = 1)"
proof -
  obtain s where s: "fresh_service 3 100 = Inr s"
    by (simp add: eval_defs)
  then have r: "reachable s"
    unfolding fresh_service_def by (rule reachable.reach_init)
  obtain s1 where s1: "fresh_service 3 1 = Inr s1"
    by (simp add: eval_defs)
  then have r1: "reachable s1"
    unfolding fresh_service_def by (rule reachable.reach_init)
  have z: "sleeping s = [] \<and> dead_letters s = [] \<and> buf (retryQueue s) = []
      \<and> dataqsiz (retryQueue s) = 50 \<and> jobsFailed s = 0 \<and> rcv_ok s None False"
    using s [symmetric] by (simp add: eval_defs)
  have z1: "sleeping s1 = [] \<and> dead_letters s1 = [] \<and> buf (retryQueue s1) = []
      \<and> dataqsiz (retryQueue s1) = 0 \<and> jobsFailed s1 = 0 \<and> rcv_ok s1 None False"
    using s1 [symmetric] by (simp add: eval_defs)
  have a: "0 \<le> Retries (failed_times 0) \<and> Retries (failed_times 0) < 2 ^ 63 - 1
      \<and> 0 \<le> Retries (failed_times 2) \<and> Retries (failed_times 2) < 2 ^ 63 - 1
      \<and> 0 \<le> Retries (failed_times 3) \<and> Retries (failed_times 3) < 2 ^ 63 - 1"
    by (simp add: failed_times_def)
  have w: "wf_system s \<and> chans_ok s \<and> wf_system s1 \<and> chans_ok s1"
    using r r1 by (simp add: reachable_wf reachable_chans_ok)
  note T0 = handleJobFailure_retry_policy [where job = "failed_times 0" and s = s and rcv = None
      and u = s and i = 0 and rcv' = None and a = "[]" and b = "[]"]
  note T2 = handleJobFailure_retry_policy [where job = "failed_times 2" and s = s and rcv = None
      and u = s and i = 0 and rcv' = None and a = "[]" and b = "[]"]
  note T3 = handleJobFailure_retry_policy [where job = "failed_times 3" and s = s and rcv = None
      and u = s and i = 0 and rcv' = None and a = "[]" and b = "[]"]
  note T1 = handleJobFailure_retry_policy [where job = "failed_times 0" and s = s1 and rcv = None
      and u = s1 and i = 0 and rcv' = None and a = "[]" and b = "[]"]
  have p1: "sleeping (handleJobFailure s (failed_times 0)) = [(1000000000, failed_times 1)]"
    using T0 [THEN conjunct1] a z by (simp add: failed_times_def)
  have p2: "sleeping (handleJobFailure s (failed_times 2)) = [(3000000000, failed_times 3)]"
    using T2 [THEN conjunct1] a z by (simp add: failed_times_def)
  have p3: "dead_letters (handleJobFailure s (failed_times 3)) = [failed_times 4]
      \<and> sleeping (handleJobFailure s (failed_times 3)) = []"
    using T3 [THEN conjunct1] a z w
    by (simp add: failed_times_def moveToDeadLetter_dead_letters moveToDeadLetter_fields)
  have p4: "sleeping (step (EvFire 0 None) (handleJobFailure s (failed_times 0))) = []
      \<and> buf (retryQueue (step (EvFire 0 None) (handleJobFailure s (failed_times 0))))
          = [failed_times 1]
      \<and> dead_letters (step (EvFire 0 None) (handleJobFailure s (failed_times 0))) = []"
    using T0 [THEN conjunct2, THEN conjunct1] a z w
    by (simp add: failed_times_def del: step.simps)
  have q: "sleeping (step (EvFire 0 None) (handleJobFailure s1 (failed_times 0))) = []
      \<and> buf (retryQueue (step (EvFire 0 None) (handleJobFailure s1 (failed_times 0)))) = []
      \<and> dead_letters (step (EvFire 0 None) (handleJobFailure s1 (failed_times 0)))
          = [failed_times 1]
      \<and> jobsFailed (step (EvFire 0 None) (handleJobFailure s1 (failed_times 0))) = 1"
    using T1 [THEN conjunct2, THEN conjunct1] a z1 w
    by (simp add: failed_times_def del: step.simps)
  from p1 p2 p3 p4 q s s1 show ?thesis by (simp del: step.simps)
qed

text \<open>
  C3 as stated fails where the retry queue has no buffer (a primary capacity of 1):
  when the sleeper's timer fires the retry queue holds as many jobs as its capacity,
  none of none, and yet, with the retry worker waiting on it, the job is not
  dead-lettered: it goes to the retry worker, which then sends it.
\<close>

theorem retry_handoff_counterexample:
  "case fresh_service 3 1 of
     Inl p \<Rightarrow> False
   | Inr s \<Rightarrow>
       sleeping (run asleep_scenario s) = [(1000000000, failing_job\<lparr>Retries := 1\<rparr>)]
     \<and> length (buf (retryQueue (run asleep_scenario s)))
         = dataqsiz (retryQueue (run asleep_scenario s))
     \<and> rcv_ok (run asleep_scenario s) (Some 0) False
     \<and> dead_letters (run (asleep_scenario @ [EvFire 0 (Some 0)]) s) = []
     \<and> jobsFailed (run (asleep_scenario @ [EvFire 0 (Some 0)]) s) = 0
     \<and> inflight (run (asleep_scenario @ [EvFire 0 (Some 0)]) s)
         = [(0, failing_job\<lparr>Retries := 1\<rparr>)]
     \<and> jobsProcessed (run (asleep_scenario @ [EvFire 0 (Some 0), EvProcess 0 None]) s) = 1"
  by (simp add: eval_defs asleep_scenario_def)

text \<open>
  C4, as the code has it. On an open primary queue of a reachable state,
  \<open>EnqueueJob\<close> returns at once. When the queue holds as many jobs as its capacity and
  no receiver can take the job (no worker waits on the queue, or the queue has a
  buffer), it returns the error ``queue is full'' and the state is the one it started
  from. Otherwise (the buffer has room, or the queue has no buffer and a worker waits on
  it) it returns nil and the job is at the tail of the primary queue's buffer, or in
  the hands of the worker that was waiting. The queue never holds more than its
  capacity.
\<close>

theorem EnqueueJob_nonblocking:
  assumes "reachable s" and "\<not> closed (jobQueue s)"
  shows "EnqueueJob s job rcv =
           (if length (buf (jobQueue s)) = dataqsiz (jobQueue s)
                 \<and> (rcv = None \<or> 0 < dataqsiz (jobQueue s))
            then Inr (Some QueueIsFull, s)
            else Inr (None,
                   case rcv of
                     Some r \<Rightarrow> s\<lparr>inflight := inflight s @ [(r, job)]\<rparr>
                   | None \<Rightarrow> s\<lparr>jobQueue := (jobQueue s)\<lparr>buf := buf (jobQueue s) @ [job]\<rparr>\<rparr>))
       \<and> length (buf (jobQueue s)) \<le> dataqsiz (jobQueue s)"
proof -
  from reachable_chans_ok [OF assms(1)]
  have l: "length (buf (jobQueue s)) \<le> dataqsiz (jobQueue s)"
    by (simp add: chans_ok_def)
  from EnqueueJob_effect [OF l, of job rcv] assms(2) l show ?thesis
    unfolding full_at_capacity [OF l] by simp
qed

theorem EnqueueJob_nonblocking_witness:
  "case fresh_service 3 1 of
     Inl p \<Rightarrow> False
   | Inr s \<Rightarrow>
       (case EnqueueJob (Start s) plain_job None of
          Inl p \<Rightarrow> False
        | Inr (e, t) \<Rightarrow>
            e = None \<and> buf (jobQueue t) = [plain_job]
          \<and> EnqueueJob t failing_job None = Inr (Some QueueIsFull, t))"
proof -
  obtain s where s: "fresh_service 3 1 = Inr s"
    by (simp add: eval_defs)
  then have "reachable s"
    unfolding fresh_service_def by (rule reachable.reach_init)
  then have r: "reachable (run [EvStart] s)" "reachable (run [EvStart, EvEnqueue plain_job None] s)"
    by (rule reachable_run)+
  have z: "\<not> closed (jobQueue (Start s)) \<and> buf (jobQueue (Start s)) = []
      \<and> dataqsiz (jobQueue (Start s)) = 1"
    using s [symmetric] by (simp add: eval_defs)
  from EnqueueJob_nonblocking [of "Start s" plain_job None] r(1) z
  have e: "EnqueueJob (Start s) plain_job None
      = Inr (None, (Start s)\<lparr>jobQueue := (jobQueue (Start s))\<lparr>buf := [plain_job]\<rparr>\<rparr>)"
    by simp
  let ?t = "(Start s)\<lparr>jobQueue := (jobQueue (Start s))\<lparr>buf := [plain_job]\<rparr>\<rparr>"
  from r(2) e have "reachable ?t" by (simp add: rcv_ok_def)
  from EnqueueJob_nonblocking [OF this, of failing_job None] z
  have "EnqueueJob ?t failing_job None = Inr (Some QueueIsFull, ?t)"
    by simp
  with e s show ?thesis by simp
qed

text \<open>
  C4 as stated fails on a primary queue of capacity 0: the open queue of the started
  service holds as many jobs as its capacity, none of none, and with worker 1 waiting
  on it \<open>EnqueueJob\<close> returns nil and the job is in the worker's hands. (With no
  worker waiting the same queue refuses the job.)
\<close>

theorem EnqueueJob_capacity_zero_counterexample:
  "case fresh_service 3 0 of
     Inl p \<Rightarrow> False
   | Inr s \<Rightarrow>
       \<not> closed (jobQueue (Start s))
     \<and> length (buf (jobQueue (Start s))) = dataqsiz (jobQueue (Start s))
     \<and> rcv_ok (Start s) (Some 1) True
     \<and> EnqueueJob (Start s) plain_job None = Inr (Some QueueIsFull, Start s)
     \<and> (case EnqueueJob (Start s) plain_job (Some 1) of
           Inl p \<Rightarrow> False
         | Inr (e, t) \<Rightarrow> e = None \<and> inflight t = [(1, plain_job)] \<and> buf (jobQueue t) = [])"
  by (simp add: eval_defs)

lemma step_keeps_closed: "closed (jobQueue s) \<Longrightarrow> closed (jobQueue (step e s))"
proof (cases e)
  case (EvEnqueue job rcv)
  then show ?thesis if "closed (jobQueue s)"
    using that by (auto simp: EnqueueJob_def chansend_nb_def split: sum.splits option.splits if_splits)
next
  case (EvFire i rcv)
  then show ?thesis if "closed (jobQueue s)"
    using that by (auto simp: retry_send_def moveToDeadLetter_fields
        split: sum.splits send_result.splits)
next
  case (EvProcess w fault)
  then show ?thesis if "closed (jobQueue s)"
    using that by (auto simp: processJob_fields split: option.splits)
next
  case EvList
  then show ?thesis if "closed (jobQueue s)"
    using that by (auto simp: GetDeadLetterJobs_def make_slice_def)
next
  case (EvCallerStore k i v)
  then show ?thesis if "closed (jobQueue s)"
    using that by (auto split: sum.splits)
next
  case (EvCallerAppend k v)
  then show ?thesis if "closed (jobQueue s)"
    using that by (auto split: prod.splits)
qed (auto simp: Start_def recv_from_def chanrecv_def Shutdown_def Let_def
       split: option.splits list.splits if_splits)

lemma run_keeps_closed: "closed (jobQueue s) \<Longrightarrow> closed (jobQueue (run evs s))"
  by (induction evs arbitrary: s) (auto intro: step_keeps_closed)

lemma Shutdown_closes: "closed (jobQueue (fst (Shutdown s)))"
  by (simp add: Shutdown_def Let_def)

lemma EnqueueJob_closed: "closed (jobQueue s) \<Longrightarrow> EnqueueJob s job rcv = Inl SendOnClosedChannel"
  by (simp add: EnqueueJob_def chansend_nb_def)

text \<open>
  C5, what the code does: after \<open>Shutdown\<close> has closed the primary queue, and after
  whatever the goroutines do next, every \<open>EnqueueJob\<close> panics with ``send on closed
  channel''; it does not return an error. The first \<open>Shutdown\<close> itself does not panic.
\<close>

theorem EnqueueJob_after_Shutdown_panics:
  "EnqueueJob (run evs (fst (Shutdown s))) job rcv = Inl SendOnClosedChannel
   \<and> (if closed (jobQueue s) \<or> shutdown s then True else snd (Shutdown s) = None)"
  by (simp add: EnqueueJob_closed run_keeps_closed Shutdown_closes Shutdown_def Let_def)

theorem EnqueueJob_after_Shutdown_panics_witness:
  "case fresh_service 3 100 of
     Inl p \<Rightarrow> False
   | Inr s \<Rightarrow>
       snd (Shutdown (Start s)) = None
     \<and> EnqueueJob (fst (Shutdown (Start s))) plain_job None = Inl SendOnClosedChannel
     \<and> EnqueueJob (Start s) plain_job None \<noteq> Inl SendOnClosedChannel"
proof -
  obtain s where s: "fresh_service 3 100 = Inr s"
    by (simp add: eval_defs)
  have z: "\<not> closed (jobQueue (Start s)) \<and> \<not> shutdown (Start s)
      \<and> EnqueueJob (Start s) plain_job None \<noteq> Inl SendOnClosedChannel"
    using s [symmetric] by (simp add: eval_defs)
  from EnqueueJob_after_Shutdown_panics [of "[]" "Start s" plain_job None] z s
  show ?thesis by simp
qed

subsection \<open>Construction and the life of a failing job\<close>

lemma step_capacities:
  "dataqsiz (jobQueue (step e s)) = dataqsiz (jobQueue s)
   \<and> dataqsiz (retryQueue (step e s)) = dataqsiz (retryQueue s)"
proof (cases e)
  case (EvEnqueue job rcv)
  then show ?thesis
    by (auto simp: EnqueueJob_def chansend_nb_def split: sum.splits option.splits if_splits)
next
  case (EvFire i rcv)
  then show ?thesis
    by (auto simp: retry_send_def chansend_nb_def moveToDeadLetter_fields
        split: sum.splits option.splits if_splits)
next
  case (EvProcess w fault)
  then show ?thesis by (auto simp: processJob_fields split: option.splits)
next
  case EvList
  then show ?thesis by (auto simp: GetDeadLetterJobs_def make_slice_def)
next
  case (EvCallerStore k i v)
  then show ?thesis by (auto split: sum.splits)
next
  case (EvCallerAppend k v)
  then show ?thesis by (auto split: prod.splits)
qed (auto simp: Start_def recv_from_def chanrecv_def Shutdown_def Let_def
       split: option.splits list.splits if_splits)

lemma run_capacities:
  "dataqsiz (jobQueue (run evs s)) = dataqsiz (jobQueue s)
   \<and> dataqsiz (retryQueue (run evs s)) = dataqsiz (retryQueue s)"
  by (induction evs arbitrary: s) (simp_all add: step_capacities)

lemma NewEmailService_ok:
  assumes "0 \<le> q" and "q \<le> lim" and "set metric_names \<inter> set reg = {}"
  shows "\<exists>s. NewEmailService reg lim g w q = Inr s"
proof -
  from assms(1) have "0 \<le> q div 2" "q div 2 \<le> q" by auto
  with assms show ?thesis
    by (auto simp: NewEmailService_def makechan_def make_slice_def sdiv_2_nonneg
        MustRegister_fresh [OF distinct_metric_names])
qed

text \<open>
  C9, as the code has it. For a primary capacity from 0 up to what the runtime can
  allocate, in a process that has not registered the four metrics yet, the constructor
  returns a service whose primary queue has that capacity and whose retry queue has half
  of it, rounded down, with no lower bound: capacities 0 and 1 give a retry queue of
  capacity 0. Neither capacity changes in any run. A negative capacity (or one beyond
  the runtime's limit) makes the constructor panic.
\<close>

theorem NewEmailService_capacities:
  "(q < 0 \<or> lim < q \<longrightarrow> NewEmailService reg lim g w q = Inl MakechanSizeOutOfRange)
   \<and> (0 \<le> q \<and> q \<le> lim \<and> set metric_names \<inter> set reg = {} \<longrightarrow>
        (\<exists>s. NewEmailService reg lim g w q = Inr s
            \<and> dataqsiz (jobQueue s) = nat q
            \<and> dataqsiz (retryQueue s) = nat q div 2
            \<and> (q \<le> 1 \<longrightarrow> dataqsiz (retryQueue s) = 0)
            \<and> (\<forall>evs. dataqsiz (jobQueue (run evs s)) = nat q
                    \<and> dataqsiz (retryQueue (run evs s)) = nat q div 2)))"
proof -
  have "NewEmailService reg lim g w q = Inl MakechanSizeOutOfRange" if "q < 0 \<or> lim < q"
    using that by (auto simp: NewEmailService_def makechan_def)
  moreover have "\<exists>s. NewEmailService reg lim g w q = Inr s
            \<and> dataqsiz (jobQueue s) = nat q
            \<and> dataqsiz (retryQueue s) = nat q div 2
            \<and> (q \<le> 1 \<longrightarrow> dataqsiz (retryQueue s) = 0)
            \<and> (\<forall>evs. dataqsiz (jobQueue (run evs s)) = nat q
                    \<and> dataqsiz (retryQueue (run evs s)) = nat q div 2)"
    if a: "0 \<le> q" "q \<le> lim" "set metric_names \<inter> set reg = {}"
  proof -
    from NewEmailService_ok [OF a] obtain s where s: "NewEmailService reg lim g w q = Inr s"
      by blast
    from NewEmailService_Inr [OF s] have c: "dataqsiz (jobQueue s) = nat q"
      "dataqsiz (retryQueue s) = nat (q div 2)" by auto
    from a(1) have h: "nat (q div 2) = nat q div 2" by (simp add: nat_div_distrib)
    from a(1) have "q \<le> 1 \<longrightarrow> nat q div 2 = 0" by auto
    with s c h show ?thesis by (auto simp: run_capacities)
  qed
  ultimately show ?thesis by blast
qed

theorem NewEmailService_capacities_witness:
  "case fresh_service 3 100 of
     Inl p \<Rightarrow> False
   | Inr s \<Rightarrow>
       dataqsiz (jobQueue (run retry_scenario s)) = 100
     \<and> dataqsiz (retryQueue (run retry_scenario s)) = 50
     \<and> fresh_service 3 (- 1) = Inl MakechanSizeOutOfRange"
proof -
  have "set metric_names \<inter> set [] = {}" by simp
  with NewEmailService_capacities [of 100 1000000 "[]" "\<lambda>c. 2 * c" 3]
    NewEmailService_capacities [of "- 1" 1000000 "[]" "\<lambda>c. 2 * c" 3]
  show ?thesis
    by (auto simp: fresh_service_def)
qed

text \<open>
  C9 as stated fails: a primary capacity of 1 gives a retry queue of capacity 0, which
  is less than 1.
\<close>

theorem retry_capacity_zero_counterexample:
  "case fresh_service 3 1 of
     Inl p \<Rightarrow> False
   | Inr s \<Rightarrow> dataqsiz (jobQueue s) = 1 \<and> dataqsiz (retryQueue s) = 0"
  by (simp add: eval_defs)

lemma fire_effect:
  assumes "reachable u" and "i < length (sleeping u)" and "rcv_ok u rcv False"
  shows "sleeping (step (EvFire i rcv) u) = take i (sleeping u) @ drop (Suc i) (sleeping u)
       \<and> (if full (retryQueue u) rcv
          then dead_letters (step (EvFire i rcv) u) = dead_letters u @ [snd (sleeping u ! i)]
             \<and> retryQueue (step (EvFire i rcv) u) = retryQueue u
             \<and> inflight (step (EvFire i rcv) u) = inflight u
          else dead_letters (step (EvFire i rcv) u) = dead_letters u
             \<and> (case rcv of
                  None \<Rightarrow> buf (retryQueue (step (EvFire i rcv) u))
                            = buf (retryQueue u) @ [snd (sleeping u ! i)]
                          \<and> inflight (step (EvFire i rcv) u) = inflight u
                | Some r \<Rightarrow> inflight (step (EvFire i rcv) u)
                            = inflight u @ [(r, snd (sleeping u ! i))]
                          \<and> retryQueue (step (EvFire i rcv) u) = retryQueue u))"
proof -
  let ?u1 = "u\<lparr>sleeping := take i (sleeping u) @ drop (Suc i) (sleeping u)\<rparr>"
  from reachable_chans_ok [OF assms(1)] have c: "\<not> closed (retryQueue ?u1)"
      "length (buf (retryQueue ?u1)) \<le> dataqsiz (retryQueue ?u1)"
    by (simp_all add: chans_ok_def)
  from reachable_wf [OF assms(1)] have w: "wf_system ?u1" by simp
  from assms(2,3) retry_send_effect [OF c, of "snd (sleeping u ! i)" rcv]
    moveToDeadLetter_dead_letters [OF w, of "snd (sleeping u ! i)"]
  show ?thesis
    by (auto simp: moveToDeadLetter_fields split: option.splits)
qed

text \<open>
  C1, as the code has it. A job with retry count 0 whose subject is longer than 10 bytes
  and ends with \<open>!\<close> fails its first attempt: it is put to sleep for one second with
  retry count 1, and nothing else changes but the log. Processing the job with retry
  count 1 succeeds: the processed counter goes up by one and the job is in no queue,
  no sleeper and no dead-letter record. When a sleeper's timer fires in a reachable
  state, the job goes to the dead-letter log (once, at its end) exactly when the retry
  queue is full, and otherwise to the retry queue's tail or to the waiting worker. In
  every reachable state every dead-letter record, every sleeper and every job in the
  retry queue has retry count 1: no record with retry count 4 ever appears.
\<close>

theorem failing_job_retried_once:
  assumes "Retries job = 0" and "10 < length (Subject job)" and "last (Subject job) = CHR ''!''"
  shows "processJob s job w None
           = s\<lparr>logs := logs s @ [LogProcessing w (To job) (Subject job), LogRetrying 1 (To job)],
               sleeping := sleeping s @ [(1000000000, job\<lparr>Retries := 1\<rparr>)]\<rparr>
       \<and> processJob t (job\<lparr>Retries := 1\<rparr>) w' None
           = t\<lparr>logs := logs t @ [LogProcessing w' (To job) (Subject job), LogSent w' (To job)],
               jobsProcessed := Suc (jobsProcessed t)\<rparr>
       \<and> (reachable u \<longrightarrow>
            list_all (\<lambda>j. Retries j = 1) (dead_letters u)
          \<and> list_all (\<lambda>(d, j). Retries j = 1 \<and> d = 1000000000) (sleeping u)
          \<and> list_all (\<lambda>j. Retries j = 1) (buf (retryQueue u))
          \<and> job\<lparr>Retries := 4\<rparr> \<notin> set (dead_letters u))
       \<and> (reachable u \<and> i < length (sleeping u) \<and> rcv_ok u rcv False \<longrightarrow>
            sleeping (step (EvFire i rcv) u) = take i (sleeping u) @ drop (Suc i) (sleeping u)
          \<and> (if full (retryQueue u) rcv
             then dead_letters (step (EvFire i rcv) u) = dead_letters u @ [snd (sleeping u ! i)]
                \<and> retryQueue (step (EvFire i rcv) u) = retryQueue u
                \<and> inflight (step (EvFire i rcv) u) = inflight u
             else dead_letters (step (EvFire i rcv) u) = dead_letters u
                \<and> (case rcv of
                     None \<Rightarrow> buf (retryQueue (step (EvFire i rcv) u))
                               = buf (retryQueue u) @ [snd (sleeping u ! i)]
                             \<and> inflight (step (EvFire i rcv) u) = inflight u
                   | Some r \<Rightarrow> inflight (step (EvFire i rcv) u)
                               = inflight u @ [(r, snd (sleeping u ! i))]
                             \<and> retryQueue (step (EvFire i rcv) u) = retryQueue u)))"
proof -
  from assms have f: "delivery_fails job" by (simp add: delivery_fails_iff)
  have n: "\<not> delivery_fails (job\<lparr>Retries := 1\<rparr>)" by (simp add: delivery_fails_def)
  have a: "processJob s job w None
           = s\<lparr>logs := logs s @ [LogProcessing w (To job) (Subject job), LogRetrying 1 (To job)],
               sleeping := sleeping s @ [(1000000000, job\<lparr>Retries := 1\<rparr>)]\<rparr>"
    using f by (simp add: processJob_effect)
  have b: "processJob t (job\<lparr>Retries := 1\<rparr>) w' None
           = t\<lparr>logs := logs t @ [LogProcessing w' (To job) (Subject job), LogSent w' (To job)],
               jobsProcessed := Suc (jobsProcessed t)\<rparr>"
    using n by (simp add: processJob_effect)
  have c: "list_all (\<lambda>j. Retries j = 1) (dead_letters u)
          \<and> list_all (\<lambda>(d, j). Retries j = 1 \<and> d = 1000000000) (sleeping u)
          \<and> list_all (\<lambda>j. Retries j = 1) (buf (retryQueue u))
          \<and> job\<lparr>Retries := 4\<rparr> \<notin> set (dead_letters u)" if "reachable u"
    using reachable_failed_once [OF that] by (auto simp: failed_once_def list_all_iff)
  from a b c fire_effect [of u i rcv] show ?thesis by blast
qed

theorem failing_job_retried_once_witness:
  "case fresh_service 3 1 of
     Inl p \<Rightarrow> False
   | Inr s \<Rightarrow>
       sleeping (run asleep_scenario s) = [(1000000000, failing_job\<lparr>Retries := 1\<rparr>)]
     \<and> dead_letters (run (asleep_scenario @ [EvFire 0 None]) s) = [failing_job\<lparr>Retries := 1\<rparr>]
     \<and> sleeping (run (asleep_scenario @ [EvFire 0 None]) s) = []
     \<and> inflight (run (asleep_scenario @ [EvFire 0 (Some 0)]) s) = [(0, failing_job\<lparr>Retries := 1\<rparr>)]
     \<and> dead_letters (run (asleep_scenario @ [EvFire 0 (Some 0)]) s) = []
     \<and> jobsProcessed (run (asleep_scenario @ [EvFire 0 (Some 0), EvProcess 0 None]) s) = 1"
proof -
  obtain s where s: "fresh_service 3 1 = Inr s"
    by (simp add: eval_defs)
  then have "reachable s"
    unfolding fresh_service_def by (rule reachable.reach_init)
  then have r: "reachable (run asleep_scenario s)"
    by (rule reachable_run)
  have z: "sleeping (run asleep_scenario s) = [(1000000000, failing_job\<lparr>Retries := 1\<rparr>)]
      \<and> dead_letters (run asleep_scenario s) = []
      \<and> inflight (run asleep_scenario s) = []
      \<and> dataqsiz (retryQueue (run asleep_scenario s)) = 0
      \<and> rcv_ok (run asleep_scenario s) (Some 0) False
      \<and> jobsProcessed (run asleep_scenario s) = 0"
    using s [symmetric] by (simp add: eval_defs asleep_scenario_def)
  have j: "Retries failing_job = 0 \<and> 10 < length (Subject failing_job)
      \<and> last (Subject failing_job) = CHR ''!''"
    by (simp add: failing_job_def)
  have p: "jobsProcessed (run (asleep_scenario @ [EvFire 0 (Some 0), EvProcess 0 None]) s) = 1"
    using s [symmetric] by (simp add: eval_defs asleep_scenario_def)
  from j failing_job_retried_once [of failing_job s 1 s 1 "run asleep_scenario s" 0 None]
    failing_job_retried_once [of failing_job s 1 s 1 "run asleep_scenario s" 0 "Some 0"]
    r z p s
  show ?thesis
    by (simp add: run_append full_def rcv_ok_def)
qed

text \<open>
  C1 as stated fails on the documented scenario: after its one retry the failing job has
  been sent, the processed counter is 1, nothing sleeps, nothing is queued or in flight,
  and the dead-letter log is empty with both of its counters at 0. Its retry is
  processed with retry count 1, and that attempt does not fail.
\<close>

theorem failing_job_counterexample:
  "case fresh_service 3 100 of
     Inl p \<Rightarrow> False
   | Inr s \<Rightarrow>
       dead_letters (run retry_scenario s) = []
     \<and> deadLetterJobs (run retry_scenario s) = 0
     \<and> jobsFailed (run retry_scenario s) = 0
     \<and> jobsProcessed (run retry_scenario s) = 1
     \<and> sleeping (run retry_scenario s) = []
     \<and> inflight (run retry_scenario s) = []
     \<and> buf (jobQueue (run retry_scenario s)) = []
     \<and> buf (retryQueue (run retry_scenario s)) = []
     \<and> inflight (run (take 6 retry_scenario) s) = [(2, failing_job\<lparr>Retries := 1\<rparr>)]
     \<and> \<not> delivery_fails (failing_job\<lparr>Retries := 1\<rparr>)"
  by (simp add: eval_defs retry_scenario_def)

end
